theory Spec2Isabelle
  imports Complex_Main "HOL-Library.AList"
begin

section \<open>Cell values\<close>

text \<open>
  A cell of a data frame is a float. The model keeps the special values of IEEE 754
  apart from the finite ones and computes exactly on the finite ones: rounding and
  overflow are not modelled, and there is one zero, taken as \<open>+0.0\<close> when it divides.
\<close>

datatype fval = Fin real | PInf | NInf | NaN

fun is_nan :: "fval \<Rightarrow> bool" where
  "is_nan NaN = True"
| "is_nan _ = False"

fun is_finite :: "fval \<Rightarrow> bool" where
  "is_finite (Fin a) = True"
| "is_finite _ = False"

fun is_neg :: "fval \<Rightarrow> bool" where
  "is_neg (Fin a) = (a < 0)"
| "is_neg NInf = True"
| "is_neg _ = False"

definition signed_inf :: "bool \<Rightarrow> fval" where
  "signed_inf negative = (if negative then NInf else PInf)"

fun fneg :: "fval \<Rightarrow> fval" where
  "fneg (Fin a) = Fin (- a)"
| "fneg PInf = NInf"
| "fneg NInf = PInf"
| "fneg NaN = NaN"

fun fadd :: "fval \<Rightarrow> fval \<Rightarrow> fval" where
  "fadd (Fin a) (Fin b) = Fin (a + b)"
| "fadd NaN y = NaN"
| "fadd x NaN = NaN"
| "fadd PInf NInf = NaN"
| "fadd NInf PInf = NaN"
| "fadd PInf y = PInf"
| "fadd NInf y = NInf"
| "fadd (Fin a) y = y"

definition fsub :: "fval \<Rightarrow> fval \<Rightarrow> fval" where
  "fsub x y = fadd x (fneg y)"

fun fmul :: "fval \<Rightarrow> fval \<Rightarrow> fval" where
  "fmul (Fin a) (Fin b) = Fin (a * b)"
| "fmul NaN y = NaN"
| "fmul x NaN = NaN"
| "fmul (Fin a) y = (if a = 0 then NaN else signed_inf ((a < 0) \<noteq> is_neg y))"
| "fmul x (Fin b) = (if b = 0 then NaN else signed_inf (is_neg x \<noteq> (b < 0)))"
| "fmul x y = signed_inf (is_neg x \<noteq> is_neg y)"

fun fdiv :: "fval \<Rightarrow> fval \<Rightarrow> fval" where
  "fdiv (Fin a) (Fin b) =
     (if b \<noteq> 0 then Fin (a / b)
      else if a = 0 then NaN
      else signed_inf (a < 0))"
| "fdiv NaN y = NaN"
| "fdiv x NaN = NaN"
| "fdiv (Fin a) y = Fin 0"
| "fdiv x (Fin b) = signed_inf (is_neg x \<noteq> (b < 0))"
| "fdiv x y = NaN"

text \<open>The comparison \<open>x >= y\<close>: false as soon as one side is NaN.\<close>

fun fge :: "fval \<Rightarrow> fval \<Rightarrow> bool" where
  "fge NaN y = False"
| "fge x NaN = False"
| "fge (Fin a) (Fin b) = (b \<le> a)"
| "fge PInf y = True"
| "fge x NInf = True"
| "fge x y = False"

section \<open>Data frames\<close>

text \<open>
  A pandas DataFrame: the row labels (the periods) and the labelled columns in their
  order, each column holding one cell per row. A Series is the list of its cells; the
  Series of this program all carry the index of the frame they come from, so that
  pandas aligns them position by position. A column label is a string, as the program
  formats it into the labels of its working columns.
\<close>

record 'p table =
  index :: "'p list"
  columns :: "(string \<times> fval list) list"

text \<open>
  A frame is rectangular. The model looks a label up as a key, which is what pandas does
  when the labels of the columns are distinct.
\<close>

definition wf_table :: "'p table \<Rightarrow> bool" where
  "wf_table df \<longleftrightarrow>
     list_all (\<lambda>c. length (snd c) = length (index df)) (columns df) \<and>
     distinct (map fst (columns df))"

definition row :: "'p table \<Rightarrow> nat \<Rightarrow> fval list" where
  "row df i = map (\<lambda>c. snd c ! i) (columns df)"

definition cell :: "'p table \<Rightarrow> nat \<Rightarrow> nat \<Rightarrow> fval" where
  "cell df i j = snd (columns df ! j) ! i"

section \<open>tops_bottoms\<close>

type_synonym ndarray = "fval list list"

text \<open>\<open>np.array(df)\<close>: the cells, row by row.\<close>

definition to_numpy :: "'p table \<Rightarrow> ndarray" where
  "to_numpy df = map (row df) [0..<length (index df)]"

definition zeros :: "nat \<Rightarrow> nat \<Rightarrow> ndarray" where
  "zeros n m = replicate n (replicate m (Fin 0))"

text \<open>\<open>arr[i, j] = v\<close>\<close>

definition assign :: "ndarray \<Rightarrow> nat \<Rightarrow> nat \<Rightarrow> fval \<Rightarrow> ndarray" where
  "assign arr i j v = arr[i := (arr ! i)[j := v]]"

record loop_state =
  tops :: ndarray
  bots :: ndarray
  neg :: fval
  pos :: fval

text \<open>The body of the loop over \<open>j\<close> (source lines 77 to 84).\<close>

definition inner_body :: "ndarray \<Rightarrow> nat \<Rightarrow> nat \<Rightarrow> loop_state \<Rightarrow> loop_state" where
  "inner_body dfa i j st =
     (if fge (dfa ! i ! j) (Fin 0) then
        (let st1 = st\<lparr>bots := assign (bots st) i j (pos st)\<rparr>;
             st2 = st1\<lparr>pos := fadd (pos st1) (dfa ! i ! j)\<rparr>
         in st2\<lparr>tops := assign (tops st2) i j (pos st2)\<rparr>)
      else
        (let st1 = st\<lparr>tops := assign (tops st) i j (neg st)\<rparr>;
             st2 = st1\<lparr>neg := fadd (neg st1) (dfa ! i ! j)\<rparr>
         in st2\<lparr>bots := assign (bots st2) i j (neg st2)\<rparr>))"

text \<open>The body of the loop over \<open>i\<close> (source lines 74 to 84); \<open>m\<close> is \<open>tops.shape[1]\<close>.\<close>

definition outer_body :: "ndarray \<Rightarrow> nat \<Rightarrow> nat \<Rightarrow> loop_state \<Rightarrow> loop_state" where
  "outer_body dfa m i st = fold (inner_body dfa i) [0..<m] (st\<lparr>neg := Fin 0, pos := Fin 0\<rparr>)"

text \<open>
  \<open>pd.DataFrame(arr)\<close> with the columns and the index of \<open>df\<close>; the array has the
  shape of \<open>df\<close>, so that the two assignments of labels cannot fail.
\<close>

definition with_labels :: "ndarray \<Rightarrow> 'p table \<Rightarrow> 'p table" where
  "with_labels arr df =
     \<lparr>index = index df,
      columns = map (\<lambda>j. (fst (columns df ! j), map (\<lambda>r. r ! j) arr)) [0..<length (columns df)]\<rparr>"

text \<open>
  \<open>tops_bottoms\<close> (source lines 69 to 91). The two arrays are written cell by cell.
  The accumulators have no value before the first row: the body of the loop over \<open>i\<close>
  sets them to 0 before it reads them.
\<close>

definition tops_bottoms :: "'p table \<Rightarrow> 'p table \<times> 'p table" where
  "tops_bottoms df =
     (let dfa = to_numpy df;
          n = length (index df);
          m = length (columns df);
          st = fold (outer_body dfa m) [0..<n]
                 \<lparr>tops = zeros n m, bots = zeros n m, neg = Fin 0, pos = Fin 0\<rparr>
      in (with_labels (tops st) df, with_labels (bots st) df))"

text \<open>
  The segments that the loop over \<open>j\<close> writes for the values of one row, from given
  values of the accumulators: the pairs (top, bottom) in column order.
\<close>

fun segments :: "fval \<Rightarrow> fval \<Rightarrow> fval list \<Rightarrow> (fval \<times> fval) list" where
  "segments p n [] = []"
| "segments p n (v # vs) =
     (if fge v (Fin 0) then (fadd p v, p) # segments (fadd p v) n vs
      else (n, fadd n v) # segments p (fadd n v) vs)"

text \<open>
  The rule of the specification, on real values: two accumulators, the non-negative
  values stacked upward from the first and the negative ones downward from the second.
\<close>

fun spec_segments :: "real \<Rightarrow> real \<Rightarrow> real list \<Rightarrow> (real \<times> real) list" where
  "spec_segments p n [] = []"
| "spec_segments p n (v # vs) =
     (if v \<ge> 0 then (p + v, p) # spec_segments (p + v) n vs
      else (n, n + v) # spec_segments p (n + v) vs)"

text \<open>The invariant of the loop over \<open>i\<close>: the rows before \<open>k\<close> are written.\<close>

definition done_upto :: "ndarray \<Rightarrow> nat \<Rightarrow> nat \<Rightarrow> nat \<Rightarrow> loop_state \<Rightarrow> bool" where
  "done_upto dfa n m k st \<longleftrightarrow>
     length (tops st) = n \<and> length (bots st) = n \<and>
     (\<forall>i<n. tops st ! i = (if i < k then map fst (segments (Fin 0) (Fin 0) (dfa ! i))
                             else replicate m (Fin 0))) \<and>
     (\<forall>i<n. bots st ! i = (if i < k then map snd (segments (Fin 0) (Fin 0) (dfa ! i))
                             else replicate m (Fin 0)))"

section \<open>extract_dfs\<close>

text \<open>
  The function works on two data frames, the caller's and a copy, and assigns columns
  to one of them. The frames are objects of a store, a variable holds the address of its
  frame, and an assignment to a column changes the frame at that address.
\<close>

datatype error = KeyError string | ValueError | NoObject

type_synonym addr = nat

type_synonym 'p store = "'p table list"

definition andthen :: "error + 'a \<Rightarrow> ('a \<Rightarrow> error + 'b) \<Rightarrow> error + 'b" where
  "andthen r f = (case r of Inl e \<Rightarrow> Inl e | Inr x \<Rightarrow> f x)"

text \<open>The frame of a variable. A Python variable always holds an object: \<open>NoObject\<close>
  is the answer of the model for an address that the store does not have.\<close>

definition deref :: "'p store \<Rightarrow> addr \<Rightarrow> error + 'p table" where
  "deref s a = (if a < length s then Inr (s ! a) else Inl NoObject)"

definition alloc :: "'p store \<Rightarrow> 'p table \<Rightarrow> 'p store \<times> addr" where
  "alloc s f = (s @ [f], length s)"

text \<open>\<open>df.copy()\<close>\<close>

definition copy :: "'p store \<Rightarrow> addr \<Rightarrow> error + 'p store \<times> addr" where
  "copy s a = andthen (deref s a) (\<lambda>f. Inr (alloc s f))"

text \<open>\<open>list(df.columns)\<close>\<close>

definition column_labels :: "'p store \<Rightarrow> addr \<Rightarrow> error + string list" where
  "column_labels s a = andthen (deref s a) (\<lambda>f. Inr (map fst (columns f)))"

text \<open>\<open>df[name]\<close>\<close>

definition getitem :: "'p store \<Rightarrow> addr \<Rightarrow> string \<Rightarrow> error + fval list" where
  "getitem s a name =
     andthen (deref s a) (\<lambda>f.
       case map_of (columns f) name of None \<Rightarrow> Inl (KeyError name) | Some c \<Rightarrow> Inr c)"

text \<open>\<open>df[name] = col\<close>: the column of that label is replaced where it stands, a new
  label is added as the last column.\<close>

definition setitem :: "'p store \<Rightarrow> addr \<Rightarrow> string \<Rightarrow> fval list \<Rightarrow> error + 'p store" where
  "setitem s a name col =
     andthen (deref s a) (\<lambda>f.
       Inr (s[a := f\<lparr>columns := AList.update name col (columns f)\<rparr>]))"

text \<open>A sum that skips NaN, as pandas sums by default.\<close>

definition nansum :: "fval list \<Rightarrow> fval" where
  "nansum xs = foldl fadd (Fin 0) (filter (\<lambda>v. \<not> is_nan v) xs)"

text \<open>\<open>df.sum(axis=1)\<close>\<close>

definition sum_axis1 :: "'p store \<Rightarrow> addr \<Rightarrow> error + fval list" where
  "sum_axis1 s a =
     andthen (deref s a) (\<lambda>f. Inr (map (\<lambda>i. nansum (row f i)) [0..<length (index f)]))"

text \<open>\<open>series.shift(1)\<close>: every value moves one period down, the first one is NaN.\<close>

definition shift :: "fval list \<Rightarrow> fval list" where
  "shift xs = take (length xs) (NaN # xs)"

definition series_sub :: "fval list \<Rightarrow> fval list \<Rightarrow> fval list" where
  "series_sub xs ys = map2 fsub xs ys"

definition series_mul :: "fval list \<Rightarrow> fval list \<Rightarrow> fval list" where
  "series_mul xs ys = map2 fmul xs ys"

definition series_div :: "fval list \<Rightarrow> fval list \<Rightarrow> fval list" where
  "series_div xs ys = map2 fdiv xs ys"

text \<open>\<open>df[[name, ...]]\<close>: a new frame of the columns of these labels.\<close>

fun lookup_all :: "(string \<times> fval list) list \<Rightarrow> string list \<Rightarrow> error + (string \<times> fval list) list" where
  "lookup_all cs [] = Inr []"
| "lookup_all cs (name # names) =
     (case map_of cs name of
        None \<Rightarrow> Inl (KeyError name)
      | Some c \<Rightarrow> andthen (lookup_all cs names) (\<lambda>rest. Inr ((name, c) # rest)))"

definition select :: "'p store \<Rightarrow> addr \<Rightarrow> string list \<Rightarrow> error + 'p store \<times> addr" where
  "select s a names =
     andthen (deref s a) (\<lambda>f.
     andthen (lookup_all (columns f) names) (\<lambda>cs.
       Inr (alloc s \<lparr>index = index f, columns = cs\<rparr>)))"

text \<open>\<open>df.columns = names\<close>\<close>

definition set_columns :: "'p store \<Rightarrow> addr \<Rightarrow> string list \<Rightarrow> error + 'p store" where
  "set_columns s a names =
     andthen (deref s a) (\<lambda>f.
       if length names = length (columns f)
       then Inr (s[a := f\<lparr>columns := zip names (map snd (columns f))\<rparr>])
       else Inl ValueError)"

text \<open>\<open>df.iloc[1:]\<close>\<close>

definition iloc_from1 :: "'p store \<Rightarrow> addr \<Rightarrow> error + 'p table" where
  "iloc_from1 s a =
     andthen (deref s a) (\<lambda>f.
       Inr \<lparr>index = tl (index f), columns = map (\<lambda>c. (fst c, tl (snd c))) (columns f)\<rparr>)"

definition pctg_growth :: "string \<Rightarrow> string" where
  "pctg_growth cat = ''pctg_growth_'' @ cat"

definition contrib :: "string \<Rightarrow> string" where
  "contrib cat = ''contrib_'' @ cat"

text \<open>The first loop over the categories (source lines 27 and 28).\<close>

fun growth_loop :: "'p store \<Rightarrow> addr \<Rightarrow> addr \<Rightarrow> string list \<Rightarrow> error + 'p store" where
  "growth_loop s df dff [] = Inr s"
| "growth_loop s df dff (cat # cats) =
     andthen (getitem s dff cat) (\<lambda>cur.
     andthen (getitem s df cat) (\<lambda>orig.
     andthen (getitem s dff cat) (\<lambda>cur'.
     andthen (setitem s dff (pctg_growth cat)
                (series_div (series_sub cur (shift orig)) (shift cur'))) (\<lambda>s'.
     growth_loop s' df dff cats))))"

text \<open>The second loop over the categories (source lines 29 and 30).\<close>

fun contrib_loop :: "'p store \<Rightarrow> addr \<Rightarrow> string list \<Rightarrow> error + 'p store" where
  "contrib_loop s dff [] = Inr s"
| "contrib_loop s dff (cat # cats) =
     andthen (getitem s dff (pctg_growth cat)) (\<lambda>growth.
     andthen (getitem s dff cat) (\<lambda>cur.
     andthen (getitem s dff ''total'') (\<lambda>total.
     andthen (setitem s dff (contrib cat)
                (series_div (series_mul growth (shift cur)) (shift total))) (\<lambda>s'.
     contrib_loop s' dff cats))))"

text \<open>
  \<open>extract_dfs\<close>, statement by statement (source lines 23 to 36). It takes the store
  and the address of the caller's frame, and returns the two frames and the store it
  leaves. No statement of the source raises by itself; the errors of the model are those
  of the pandas operations, a label that a frame does not have (\<open>KeyError\<close>) and a list of
  new labels of the wrong length (\<open>ValueError\<close>).
\<close>

definition extract_dfs :: "'p store \<Rightarrow> addr \<Rightarrow> error + ('p table \<times> 'p table) \<times> 'p store" where
  "extract_dfs s0 df =
     andthen (copy s0 df) (\<lambda>(s1, dff).
     andthen (column_labels s1 dff) (\<lambda>categories.
     andthen (sum_axis1 s1 dff) (\<lambda>row_sums.
     andthen (setitem s1 dff ''total'' row_sums) (\<lambda>s2.
     andthen (getitem s2 dff ''total'') (\<lambda>total.
     andthen (setitem s2 dff ''pctg_growth_total''
                (series_div (series_sub total (shift total)) (shift total))) (\<lambda>s3.
     andthen (growth_loop s3 df dff categories) (\<lambda>s4.
     andthen (contrib_loop s4 dff categories) (\<lambda>s5.
     andthen (select s5 dff [''pctg_growth_total'']) (\<lambda>(s6, growth_df).
     andthen (set_columns s6 growth_df [''total'']) (\<lambda>s7.
     andthen (select s7 dff (map contrib categories)) (\<lambda>(s8, contrib_df).
     andthen (set_columns s8 contrib_df categories) (\<lambda>s9.
     andthen (iloc_from1 s9 growth_df) (\<lambda>growth_out.
     andthen (iloc_from1 s9 contrib_df) (\<lambda>contrib_out.
       Inr ((growth_out, contrib_out), s9)))))))))))))))"

text \<open>What the caller gets, without the store.\<close>

definition returned :: "error + ('p table \<times> 'p table) \<times> 'p store \<Rightarrow> error + 'p table \<times> 'p table" where
  "returned r = (case r of Inl e \<Rightarrow> Inl e | Inr x \<Rightarrow> Inr (fst x))"

text \<open>
  A column of the working copy after the call. The copy is the first frame that
  \<open>extract_dfs\<close> allocates, so that its address is the length of the caller's store.
\<close>

definition working_column :: "'p store \<Rightarrow> addr \<Rightarrow> string \<Rightarrow> error + fval list" where
  "working_column s0 df name =
     andthen (extract_dfs s0 df) (\<lambda>(r, s'). getitem s' (length s0) name)"

section \<open>Notions used in the proofs\<close>

text \<open>The labels of a frame, and a frame whose index and columns all have length \<open>N\<close>.\<close>

definition labels :: "'p table \<Rightarrow> string set" where
  "labels f = fst ` set (columns f)"

definition rect :: "nat \<Rightarrow> 'p table \<Rightarrow> bool" where
  "rect N f \<longleftrightarrow> length (index f) = N \<and> (\<forall>c\<in>set (columns f). length (snd c) = N)"

text \<open>The right-hand sides of the assignments of source lines 26, 28 and 30.\<close>

definition growth_series :: "fval list \<Rightarrow> fval list \<Rightarrow> fval list" where
  "growth_series cur orig = series_div (series_sub cur (shift orig)) (shift cur)"

definition contrib_series :: "fval list \<Rightarrow> fval list \<Rightarrow> fval list \<Rightarrow> fval list" where
  "contrib_series g cur tot = series_div (series_mul g (shift cur)) (shift tot)"

text \<open>
  The two frames that are selected from the working copy \<open>w\<close> and relabelled (source
  lines 31 to 35), and a frame without its first period.
\<close>

definition growth_frame :: "'p table \<Rightarrow> 'p table" where
  "growth_frame w = \<lparr>index = index w,
     columns = [(''total'', the (map_of (columns w) ''pctg_growth_total''))]\<rparr>"

definition contrib_frame :: "'p table \<Rightarrow> string list \<Rightarrow> 'p table" where
  "contrib_frame w cats = \<lparr>index = index w,
     columns = map (\<lambda>c. (c, the (map_of (columns w) (contrib c)))) cats\<rparr>"

definition tail :: "'p table \<Rightarrow> 'p table" where
  "tail f = \<lparr>index = tl (index f), columns = map (\<lambda>c. (fst c, tl (snd c))) (columns f)\<rparr>"

text \<open>The total of every period.\<close>

definition row_sums :: "'p table \<Rightarrow> fval list" where
  "row_sums f = map (\<lambda>i. nansum (row f i)) [0..<length (index f)]"

text \<open>
  The working columns of \<open>extract_dfs\<close> are columns of the copy, under the labels
  \<open>total\<close>, \<open>pctg_growth_total\<close>, \<open>pctg_growth_c\<close> and \<open>contrib_c\<close> for every
  category \<open>c\<close>. The labels of a table are valid when they are distinct and none of them
  is one of these: then no assignment overwrites a column of the input or another working
  column.
\<close>

definition valid_labels :: "string list \<Rightarrow> bool" where
  "valid_labels cats \<longleftrightarrow>
     distinct cats \<and> ''total'' \<notin> set cats \<and> ''pctg_growth_total'' \<notin> set cats \<and>
     (\<forall>c\<in>set cats. pctg_growth c \<notin> set cats \<and> contrib c \<notin> set cats)"

text \<open>
  One cell of the outputs from the values of the period before (\<open>x\<close>, and the total
  \<open>tot\<close>) and of the period itself (\<open>y\<close>), as the three series expressions compute it.
\<close>

definition contrib_cell :: "fval \<Rightarrow> fval \<Rightarrow> fval \<Rightarrow> fval" where
  "contrib_cell tot x y = fdiv (fmul (fdiv (fsub y x) x) x) tot"

definition growth_cell :: "fval \<Rightarrow> fval \<Rightarrow> fval" where
  "growth_cell x y = fdiv (fsub y x) x"

section \<open>Example tables\<close>

definition stack_example :: "nat table" where
  "stack_example =
     \<lparr>index = [2001],
      columns = [(''a'', [Fin 5]), (''b'', [Fin (- 3)]), (''c'', [Fin 2])]\<rparr>"

definition zero_example :: "nat table" where
  "zero_example =
     \<lparr>index = [2001, 2002],
      columns = [(''a'', [Fin 4, Fin 1]), (''b'', [Fin (- 1), Fin 0]), (''c'', [Fin 0, Fin 2])]\<rparr>"

definition swapped_example :: "nat table" where
  "swapped_example =
     \<lparr>index = [2002, 2001],
      columns = [(''a'', [Fin 1, Fin 4]), (''b'', [Fin 0, Fin (- 1)]), (''c'', [Fin 2, Fin 0])]\<rparr>"

definition growth_example :: "nat table" where
  "growth_example =
     \<lparr>index = [2000, 2001, 2002],
      columns = [(''A'', [Fin 10, Fin 15, Fin 12]), (''B'', [Fin 20, Fin 25, Fin 30])]\<rparr>"

definition collide_example :: "nat table" where
  "collide_example =
     \<lparr>index = [2000, 2001],
      columns = [(''total'', [Fin 1, Fin 2]), (''a'', [Fin 3, Fin 4])]\<rparr>"

definition single_period_example :: "nat table" where
  "single_period_example = \<lparr>index = [2000], columns = [(''a'', [Fin 3])]\<rparr>"

definition no_category_example :: "nat table" where
  "no_category_example = \<lparr>index = [2000, 2001, 2002], columns = []\<rparr>"

definition zero_divisor_example :: "nat table" where
  "zero_divisor_example =
     \<lparr>index = [2000, 2001, 2002],
      columns = [(''A'', [Fin 0, Fin 15, Fin 12]), (''B'', [Fin 0, Fin (- 15), Fin 30])]\<rparr>"

definition nan_row_example :: "nat table" where
  "nan_row_example =
     \<lparr>index = [2001],
      columns = [(''a'', [Fin 1]), (''b'', [NaN]), (''c'', [Fin (- 2)])]\<rparr>"

definition sign_example :: "nat table" where
  "sign_example =
     \<lparr>index = [2000, 2001],
      columns = [(''A'', [Fin 5, Fin 1]), (''B'', [Fin (- 5), Fin 10])]\<rparr>"

section \<open>The iteration of tops_bottoms\<close>

lemma length_segments [simp]: "length (segments p n vs) = length vs"
  by (induction vs arbitrary: p n) auto

lemma inner_loop:
  "m - j = k \<Longrightarrow> j \<le> m \<Longrightarrow> i < length (tops st) \<Longrightarrow> i < length (bots st) \<Longrightarrow>
   length (tops st ! i) = m \<Longrightarrow> length (bots st ! i) = m \<Longrightarrow> length (dfa ! i) = m \<Longrightarrow>
   tops (fold (inner_body dfa i) [j..<m] st) =
     (tops st)[i := take j (tops st ! i) @ map fst (segments (pos st) (neg st) (drop j (dfa ! i)))] \<and>
   bots (fold (inner_body dfa i) [j..<m] st) =
     (bots st)[i := take j (bots st ! i) @ map snd (segments (pos st) (neg st) (drop j (dfa ! i)))]"
proof (induction k arbitrary: j st)
  case 0
  then have "j = m" by simp
  with 0 show ?case by (simp add: list_update_same_conv)
next
  case (Suc k)
  then have jm: "j < m" by simp
  let ?st1 = "inner_body dfa i j st"
  have upt: "[j..<m] = j # [Suc j..<m]" using jm by (simp add: upt_conv_Cons)
  have dr: "drop j (dfa ! i) = (dfa ! i ! j) # drop (Suc j) (dfa ! i)"
    using jm Suc.prems by (simp add: Cons_nth_drop_Suc)
  have len1: "i < length (tops ?st1)" "i < length (bots ?st1)"
    "length (tops ?st1 ! i) = m" "length (bots ?st1 ! i) = m"
    using Suc.prems by (auto simp: inner_body_def assign_def Let_def)
  have IH: "tops (fold (inner_body dfa i) [Suc j..<m] ?st1) =
     (tops ?st1)[i := take (Suc j) (tops ?st1 ! i) @ map fst (segments (pos ?st1) (neg ?st1) (drop (Suc j) (dfa ! i)))] \<and>
   bots (fold (inner_body dfa i) [Suc j..<m] ?st1) =
     (bots ?st1)[i := take (Suc j) (bots ?st1 ! i) @ map snd (segments (pos ?st1) (neg ?st1) (drop (Suc j) (dfa ! i)))]"
    using Suc.prems jm len1 by (intro Suc.IH) auto
  have fold_eq: "fold (inner_body dfa i) [j..<m] st = fold (inner_body dfa i) [Suc j..<m] ?st1"
    by (simp add: upt)
  show ?case
  proof (cases "fge (dfa ! i ! j) (Fin 0)")
    case True
    then have vals: "tops ?st1 = (tops st)[i := (tops st ! i)[j := fadd (pos st) (dfa ! i ! j)]]"
      "bots ?st1 = (bots st)[i := (bots st ! i)[j := pos st]]"
      "pos ?st1 = fadd (pos st) (dfa ! i ! j)" "neg ?st1 = neg st"
      by (simp_all add: inner_body_def assign_def Let_def)
    show ?thesis
      unfolding fold_eq using IH Suc.prems jm True
      by (simp add: vals dr take_Suc_conv_app_nth)
  next
    case False
    then have vals: "tops ?st1 = (tops st)[i := (tops st ! i)[j := neg st]]"
      "bots ?st1 = (bots st)[i := (bots st ! i)[j := fadd (neg st) (dfa ! i ! j)]]"
      "pos ?st1 = pos st" "neg ?st1 = fadd (neg st) (dfa ! i ! j)"
      by (simp_all add: inner_body_def assign_def Let_def)
    show ?thesis
      unfolding fold_eq using IH Suc.prems jm False
      by (simp add: vals dr take_Suc_conv_app_nth)
  qed
qed

lemma inner_loop0:
  assumes "i < length (tops st)" "i < length (bots st)"
    "length (tops st ! i) = m" "length (bots st ! i) = m" "length (dfa ! i) = m"
  shows "tops (outer_body dfa m i st) =
           (tops st)[i := map fst (segments (Fin 0) (Fin 0) (dfa ! i))]"
    and "bots (outer_body dfa m i st) =
           (bots st)[i := map snd (segments (Fin 0) (Fin 0) (dfa ! i))]"
  using inner_loop [of m 0 m i "st\<lparr>neg := Fin 0, pos := Fin 0\<rparr>" dfa] assms
  by (simp_all add: outer_body_def)

lemma outer_loop:
  assumes "k \<le> n" "\<forall>i<n. length (dfa ! i) = m"
  shows "done_upto dfa n m k (fold (outer_body dfa m) [0..<k]
           \<lparr>tops = zeros n m, bots = zeros n m, neg = Fin 0, pos = Fin 0\<rparr>)"
  using assms(1)
proof (induction k)
  case 0
  show ?case by (simp add: done_upto_def zeros_def)
next
  case (Suc k)
  let ?st = "fold (outer_body dfa m) [0..<k]
           \<lparr>tops = zeros n m, bots = zeros n m, neg = Fin 0, pos = Fin 0\<rparr>"
  have inv: "done_upto dfa n m k ?st" using Suc by simp
  have kn: "k < n" using Suc.prems by simp
  have t: "tops (outer_body dfa m k ?st) = (tops ?st)[k := map fst (segments (Fin 0) (Fin 0) (dfa ! k))]"
    and b: "bots (outer_body dfa m k ?st) = (bots ?st)[k := map snd (segments (Fin 0) (Fin 0) (dfa ! k))]"
    using inv kn assms(2) by (auto intro!: inner_loop0 simp: done_upto_def)
  show ?case
    using inv kn by (auto simp: done_upto_def t b nth_list_update less_Suc_eq)
qed

lemma row_with_labels:
  assumes "i < length arr" "length (arr ! i) = length (columns df)"
  shows "row (with_labels arr df) i = arr ! i"
proof -
  have "map ((!) (arr ! i)) [0..<length (arr ! i)] = arr ! i" by (rule map_nth)
  then show ?thesis using assms by (simp add: row_def with_labels_def o_def)
qed

lemma tops_bottoms_rows:
  assumes "i < length (index df)"
  shows "row (fst (tops_bottoms df)) i = map fst (segments (Fin 0) (Fin 0) (row df i))"
    and "row (snd (tops_bottoms df)) i = map snd (segments (Fin 0) (Fin 0) (row df i))"
proof -
  let ?n = "length (index df)" and ?m = "length (columns df)"
  let ?st = "fold (outer_body (to_numpy df) ?m) [0..<?n]
           \<lparr>tops = zeros ?n ?m, bots = zeros ?n ?m, neg = Fin 0, pos = Fin 0\<rparr>"
  have len: "\<forall>i<?n. length (to_numpy df ! i) = ?m"
    by (simp add: to_numpy_def row_def)
  have inv: "done_upto (to_numpy df) ?n ?m ?n ?st"
    using outer_loop [OF le_refl len] .
  have r: "to_numpy df ! i = row df i" using assms by (simp add: to_numpy_def)
  have t: "tops ?st ! i = map fst (segments (Fin 0) (Fin 0) (row df i))"
    and b: "bots ?st ! i = map snd (segments (Fin 0) (Fin 0) (row df i))"
    using inv assms r by (simp_all add: done_upto_def)
  have lr: "length (row df i) = ?m" by (simp add: row_def)
  show "row (fst (tops_bottoms df)) i = map fst (segments (Fin 0) (Fin 0) (row df i))"
    using inv assms t lr by (simp add: tops_bottoms_def Let_def row_with_labels done_upto_def)
  show "row (snd (tops_bottoms df)) i = map snd (segments (Fin 0) (Fin 0) (row df i))"
    using inv assms b lr by (simp add: tops_bottoms_def Let_def row_with_labels done_upto_def)
qed

lemma length_spec_segments [simp]: "length (spec_segments p n vs) = length vs"
  by (induction vs arbitrary: p n) auto

lemma segments_finite:
  "segments (Fin p) (Fin n) (map Fin vs) =
     map (\<lambda>s. (Fin (fst s), Fin (snd s))) (spec_segments p n vs)"
  by (induction vs arbitrary: p n) auto

lemma tops_bottoms_finite_row:
  assumes "i < length (index df)" "row df i = map Fin vs"
  shows "row (fst (tops_bottoms df)) i = map (\<lambda>s. Fin (fst s)) (spec_segments 0 0 vs)"
    and "row (snd (tops_bottoms df)) i = map (\<lambda>s. Fin (snd s)) (spec_segments 0 0 vs)"
  using assms by (simp_all add: tops_bottoms_rows segments_finite o_def)

lemma cell_row:
  "j < length (columns df) \<Longrightarrow> cell df i j = row df i ! j"
  by (simp add: cell_def row_def)

lemma columns_tops_bottoms [simp]:
  "length (columns (fst (tops_bottoms df))) = length (columns df)"
  "length (columns (snd (tops_bottoms df))) = length (columns df)"
  by (simp_all add: tops_bottoms_def Let_def with_labels_def)

lemma spec_segments_order:
  "j < length vs \<Longrightarrow>
     snd (spec_segments p n vs ! j) \<le> fst (spec_segments p n vs ! j) \<and>
     fst (spec_segments p n vs ! j) - snd (spec_segments p n vs ! j) = \<bar>vs ! j\<bar>"
proof (induction vs arbitrary: p n j)
  case Nil
  then show ?case by simp
next
  case (Cons v vs)
  show ?case
  proof (cases j)
    case 0
    then show ?thesis by simp
  next
    case (Suc j')
    with Cons.prems have "j' < length vs" by simp
    from Cons.IH [OF this] Suc show ?thesis by simp
  qed
qed

lemma spec_segments_zero:
  "j < length vs \<Longrightarrow> vs ! j = 0 \<Longrightarrow>
     spec_segments p n vs ! j =
       (p + sum_list (filter (\<lambda>v. 0 \<le> v) (take j vs)), p + sum_list (filter (\<lambda>v. 0 \<le> v) (take j vs)))"
proof (induction vs arbitrary: p n j)
  case Nil
  then show ?case by simp
next
  case (Cons v vs)
  show ?case
  proof (cases j)
    case 0
    with Cons.prems show ?thesis by simp
  next
    case (Suc j')
    with Cons.prems have "j' < length vs" "vs ! j' = 0" by simp_all
    from Cons.IH [OF this] Suc show ?thesis by simp
  qed
qed

lemma sum_nonneg_ge0: "0 \<le> sum_list (filter (\<lambda>v. 0 \<le> v) (vs :: real list))"
  by (induction vs) auto

lemma sum_neg_le0: "sum_list (filter (\<lambda>v. v < 0) (vs :: real list)) \<le> 0"
  by (induction vs) auto

lemma Max_tops:
  "vs \<noteq> [] \<Longrightarrow> n \<le> p \<Longrightarrow>
     Max (set (map fst (spec_segments p n vs))) =
       (if \<exists>v\<in>set vs. 0 \<le> v then p + sum_list (filter (\<lambda>v. 0 \<le> v) vs) else n)"
proof (induction vs arbitrary: p n)
  case Nil
  then show ?case by simp
next
  case (Cons v vs)
  show ?case
  proof (cases "vs = []")
    case True
    then show ?thesis by simp
  next
    case False
    have ne: "set (map fst (spec_segments p' n' vs)) \<noteq> {}" for p' n'
      using False by (cases vs) auto
    show ?thesis
    proof (cases "0 \<le> v")
      case True
      have "n \<le> p + v" using True Cons.prems by simp
      from Cons.IH [OF False this] True ne sum_nonneg_ge0 [of vs] Cons.prems
      show ?thesis by (auto simp: max_def)
    next
      case neg: False
      have "n + v \<le> p" using neg Cons.prems by simp
      from Cons.IH [OF False this] neg ne sum_nonneg_ge0 [of vs] Cons.prems
      show ?thesis by (auto simp: max_def)
    qed
  qed
qed

lemma Min_bots:
  "vs \<noteq> [] \<Longrightarrow> n \<le> p \<Longrightarrow>
     Min (set (map snd (spec_segments p n vs))) =
       (if \<exists>v\<in>set vs. v < 0 then n + sum_list (filter (\<lambda>v. v < 0) vs) else p)"
proof (induction vs arbitrary: p n)
  case Nil
  then show ?case by simp
next
  case (Cons v vs)
  show ?case
  proof (cases "vs = []")
    case True
    then show ?thesis by simp
  next
    case False
    have ne: "set (map snd (spec_segments p' n' vs)) \<noteq> {}" for p' n'
      using False by (cases vs) auto
    show ?thesis
    proof (cases "0 \<le> v")
      case True
      have "n \<le> p + v" using True Cons.prems by simp
      from Cons.IH [OF False this] True ne sum_neg_le0 [of vs] Cons.prems
      show ?thesis by (auto simp: min_def)
    next
      case neg: False
      have "n + v \<le> p" using neg Cons.prems by simp
      from Cons.IH [OF False this] neg ne sum_neg_le0 [of vs] Cons.prems
      show ?thesis by (auto simp: min_def)
    qed
  qed
qed

lemma filter_none_sum:
  "\<not> (\<exists>v\<in>set vs. P v) \<Longrightarrow> sum_list (filter P vs) = (0::real)"
  by (induction vs) auto

lemma foldl_fadd_Fin: "foldl fadd (Fin a) (map Fin xs) = Fin (a + sum_list xs)"
  by (induction xs arbitrary: a) (simp_all add: add.assoc)

lemma running_sums_finite:
  "foldl fadd (Fin 0) (filter (\<lambda>v. fge v (Fin 0)) (map Fin vs)) =
     Fin (sum_list (filter (\<lambda>v. 0 \<le> v) vs))"
  "foldl fadd (Fin 0) (filter (\<lambda>v. \<not> fge v (Fin 0)) (map Fin vs)) =
     Fin (sum_list (filter (\<lambda>v. v < 0) vs))"
proof -
  have "filter (\<lambda>v. fge v (Fin 0)) (map Fin vs) = map Fin (filter (\<lambda>v. 0 \<le> v) vs)"
    by (induction vs) simp_all
  then show "foldl fadd (Fin 0) (filter (\<lambda>v. fge v (Fin 0)) (map Fin vs)) =
     Fin (sum_list (filter (\<lambda>v. 0 \<le> v) vs))"
    by (simp add: foldl_fadd_Fin)
  have "filter (\<lambda>v. \<not> fge v (Fin 0)) (map Fin vs) = map Fin (filter (\<lambda>v. v < 0) vs)"
    by (induction vs) (simp_all add: not_le)
  then show "foldl fadd (Fin 0) (filter (\<lambda>v. \<not> fge v (Fin 0)) (map Fin vs)) =
     Fin (sum_list (filter (\<lambda>v. v < 0) vs))"
    by (simp add: foldl_fadd_Fin)
qed

lemma segments_step:
  "j < length vs \<Longrightarrow>
     (if fge (vs ! j) (Fin 0)
      then fst (segments p n vs ! j) = fadd (snd (segments p n vs ! j)) (vs ! j)
      else snd (segments p n vs ! j) = fadd (fst (segments p n vs ! j)) (vs ! j))"
proof (induction vs arbitrary: p n j)
  case Nil
  then show ?case by simp
next
  case (Cons v vs)
  show ?case
  proof (cases j)
    case 0
    then show ?thesis by simp
  next
    case (Suc j')
    with Cons.prems have "j' < length vs" by simp
    from Cons.IH [OF this] Suc show ?thesis by simp
  qed
qed

lemma nan_row_outputs:
  "row (fst (tops_bottoms nan_row_example)) 0 = [Fin 1, Fin 0, NaN]"
  "row (snd (tops_bottoms nan_row_example)) 0 = [Fin 0, NaN, NaN]"
proof -
  have i: "0 < length (index nan_row_example)" by (simp add: nan_row_example_def)
  have r: "row nan_row_example 0 = [Fin 1, NaN, Fin (- 2)]"
    by (simp add: nan_row_example_def row_def)
  show "row (fst (tops_bottoms nan_row_example)) 0 = [Fin 1, Fin 0, NaN]"
    using tops_bottoms_rows(1) [OF i] by (simp add: r)
  show "row (snd (tops_bottoms nan_row_example)) 0 = [Fin 0, NaN, NaN]"
    using tops_bottoms_rows(2) [OF i] by (simp add: r)
qed

section \<open>Properties of tops_bottoms\<close>

text \<open>
  Claim C3. For a row of finite values, \<open>tops_bottoms\<close> goes through the values
  in column order with two accumulators that start at 0: a value \<open>v \<ge> 0\<close> gets
  \<open>bottom = pos\<close> and \<open>top = pos + v\<close> and raises \<open>pos\<close> by \<open>v\<close>, a value \<open>v < 0\<close>
  gets \<open>top = neg\<close> and \<open>bottom = neg + v\<close> and lowers \<open>neg\<close> by \<open>v\<close>. This is the rule
  \<open>spec_segments\<close> from 0 and 0. In particular the row \<open>[5, -3, 2]\<close> has the tops
  \<open>[5, 0, 7]\<close> and the bottoms \<open>[0, -3, 5]\<close>.
\<close>

theorem tops_bottoms_accumulators:
  assumes "i < length (index df)" and "row df i = map Fin vs"
  shows "row (fst (tops_bottoms df)) i = map (\<lambda>s. Fin (fst s)) (spec_segments 0 0 vs) \<and>
         row (snd (tops_bottoms df)) i = map (\<lambda>s. Fin (snd s)) (spec_segments 0 0 vs) \<and>
         (vs = [5, - 3, 2] \<longrightarrow>
            row (fst (tops_bottoms df)) i = map Fin [5, 0, 7] \<and>
            row (snd (tops_bottoms df)) i = map Fin [0, - 3, 5])"
  using tops_bottoms_finite_row [OF assms] by simp

text \<open>
  Claim C3 at the one-row table \<open>stack_example\<close>, whose row is \<open>[5, -3, 2]\<close>.
\<close>

theorem tops_bottoms_accumulators_witness:
  "0 < length (index stack_example) \<and>
   row stack_example 0 = map Fin [5, - 3, 2] \<and>
   row (fst (tops_bottoms stack_example)) 0 = [Fin 5, Fin 0, Fin 7] \<and>
   row (snd (tops_bottoms stack_example)) 0 = [Fin 0, Fin (- 3), Fin 5]"
  using tops_bottoms_accumulators [of 0 stack_example "[5, - 3, 2]"]
  by (simp add: stack_example_def row_def)

text \<open>
  Claim C4, amended. For a row of finite values with at least one category, the
  largest top of the row is the last value of the accumulator \<open>pos\<close>, the running sum
  of the non-negative values in column order, and the smallest bottom is the last value
  of \<open>neg\<close>, the running sum of the negative values. In exact arithmetic these are the
  sum of the non-negative values and the sum of the negative values; the sum of no values
  is 0.
\<close>

theorem tops_bottoms_max_min:
  assumes "i < length (index df)" and "row df i = map Fin vs" and "vs \<noteq> []"
  shows "\<exists>ts bs. row (fst (tops_bottoms df)) i = map Fin ts \<and>
                 row (snd (tops_bottoms df)) i = map Fin bs \<and>
                 Max (set ts) = sum_list (filter (\<lambda>v. 0 \<le> v) vs) \<and>
                 Min (set bs) = sum_list (filter (\<lambda>v. v < 0) vs) \<and>
                 Fin (Max (set ts)) =
                   foldl fadd (Fin 0) (filter (\<lambda>v. fge v (Fin 0)) (row df i)) \<and>
                 Fin (Min (set bs)) =
                   foldl fadd (Fin 0) (filter (\<lambda>v. \<not> fge v (Fin 0)) (row df i))"
proof -
  let ?ts = "map fst (spec_segments 0 0 vs)" and ?bs = "map snd (spec_segments 0 0 vs)"
  have t: "row (fst (tops_bottoms df)) i = map Fin ?ts"
    and b: "row (snd (tops_bottoms df)) i = map Fin ?bs"
    using tops_bottoms_finite_row [OF assms(1,2)] by (simp_all add: o_def)
  have mx: "Max (set ?ts) = sum_list (filter (\<lambda>v. 0 \<le> v) vs)"
    using Max_tops [OF assms(3), of 0 0] filter_none_sum [of vs "\<lambda>v. 0 \<le> v"] by auto
  have mn: "Min (set ?bs) = sum_list (filter (\<lambda>v. v < 0) vs)"
    using Min_bots [OF assms(3), of 0 0] filter_none_sum [of vs "\<lambda>v. v < 0"] by auto
  have rp: "Fin (Max (set ?ts)) = foldl fadd (Fin 0) (filter (\<lambda>v. fge v (Fin 0)) (row df i))"
    using mx by (simp add: assms(2) running_sums_finite)
  have rn: "Fin (Min (set ?bs)) = foldl fadd (Fin 0) (filter (\<lambda>v. \<not> fge v (Fin 0)) (row df i))"
    using mn by (simp add: assms(2) running_sums_finite)
  from t b mx mn rp rn show ?thesis by blast
qed

text \<open>
  Claim C4 (amended) at the row \<open>[5, -3, 2]\<close>: the largest top is 7, the smallest
  bottom -3.
\<close>

theorem tops_bottoms_max_min_witness:
  "0 < length (index stack_example) \<and>
   row stack_example 0 = map Fin [5, - 3, 2] \<and> [5, - 3, 2] \<noteq> ([] :: real list) \<and>
   (\<exists>ts bs. row (fst (tops_bottoms stack_example)) 0 = map Fin ts \<and>
            row (snd (tops_bottoms stack_example)) 0 = map Fin bs \<and>
            Max (set ts) = 7 \<and> Min (set bs) = - 3 \<and>
            Fin (Max (set ts)) = fadd (fadd (Fin 0) (Fin 5)) (Fin 2) \<and>
            Fin (Min (set bs)) = fadd (Fin 0) (Fin (- 3)))"
  using tops_bottoms_max_min [of 0 stack_example "[5, - 3, 2]"]
  by (simp add: stack_example_def row_def)

text \<open>
  Claim C4 as stated fails on a row that holds NaN. The test \<open>v >= 0\<close> is false for
  NaN, so that NaN goes to \<open>neg\<close> and every later bottom of a negative value is NaN:
  the row \<open>[1, NaN, -2]\<close> has the bottoms \<open>[0, NaN, NaN]\<close>, and the sum -2 of its
  negative values is not among them.
\<close>

theorem nan_row_breaks_max_min:
  "row nan_row_example 0 = [Fin 1, NaN, Fin (- 2)] \<and>
   row (fst (tops_bottoms nan_row_example)) 0 = [Fin 1, Fin 0, NaN] \<and>
   row (snd (tops_bottoms nan_row_example)) 0 = [Fin 0, NaN, NaN] \<and>
   sum_list (filter (\<lambda>v. 0 \<le> v) [1, - 2 :: real]) = 1 \<and>
   sum_list (filter (\<lambda>v. v < 0) [1, - 2 :: real]) = - 2 \<and>
   Fin (- 2) \<notin> set (row (snd (tops_bottoms nan_row_example)) 0)"
  by (simp add: nan_row_outputs) (simp add: nan_row_example_def row_def)

text \<open>
  Claim C8. A value equal to 0 takes the branch of \<open>v >= 0\<close>: the body of the loop
  writes the value of \<open>pos\<close> to the bottom and to the top of the cell and leaves \<open>pos\<close>
  and \<open>neg\<close> as they were. In a row of finite values, the top and the bottom of a cell
  whose value is 0 are both the sum of the non-negative values before it, which is the
  value of \<open>pos\<close> when the loop reaches the cell.
\<close>

theorem tops_bottoms_zero_segment:
  "(dfa ! k ! l = Fin 0 \<longrightarrow>
      inner_body dfa k l st =
        st\<lparr>bots := assign (bots st) k l (pos st), tops := assign (tops st) k l (pos st)\<rparr>) \<and>
   (i < length (index df) \<and> row df i = map Fin vs \<and> j < length vs \<and> vs ! j = 0 \<longrightarrow>
      cell (fst (tops_bottoms df)) i j = Fin (sum_list (filter (\<lambda>v. 0 \<le> v) (take j vs))) \<and>
      cell (snd (tops_bottoms df)) i j = cell (fst (tops_bottoms df)) i j)"
proof (intro conjI impI)
  assume z: "dfa ! k ! l = Fin 0"
  have "fadd (pos st) (Fin 0) = pos st" by (cases "pos st") simp_all
  then show "inner_body dfa k l st =
        st\<lparr>bots := assign (bots st) k l (pos st), tops := assign (tops st) k l (pos st)\<rparr>"
    using z by (simp add: inner_body_def Let_def)
next
  assume a: "i < length (index df) \<and> row df i = map Fin vs \<and> j < length vs \<and> vs ! j = 0"
  then have j: "j < length (columns df)" by (metis length_map row_def)
  have s: "spec_segments 0 0 vs ! j =
       (sum_list (filter (\<lambda>v. 0 \<le> v) (take j vs)), sum_list (filter (\<lambda>v. 0 \<le> v) (take j vs)))"
    using spec_segments_zero [of j vs 0 0] a by simp
  show t: "cell (fst (tops_bottoms df)) i j = Fin (sum_list (filter (\<lambda>v. 0 \<le> v) (take j vs)))"
    using a j s tops_bottoms_finite_row(1) [of i df vs] by (simp add: cell_row)
  show "cell (snd (tops_bottoms df)) i j = cell (fst (tops_bottoms df)) i j"
    using a j s t tops_bottoms_finite_row(2) [of i df vs] by (simp add: cell_row)
qed

text \<open>
  Claim C8 at one step of the loop with \<open>pos = 4\<close> and \<open>neg = -1\<close>, and at the
  cell of value 0 in the second row of \<open>zero_example\<close>.
\<close>

theorem tops_bottoms_zero_segment_witness:
  "\<lparr>tops = zeros 1 2, bots = zeros 1 2, neg = Fin (- 1), pos = Fin 4\<rparr> =
     \<lparr>tops = zeros 1 2, bots = zeros 1 2, neg = Fin (- 1), pos = Fin 4\<rparr> \<and>
   [[Fin 4, Fin 0]] ! 0 ! 1 = Fin 0 \<and>
   inner_body [[Fin 4, Fin 0]] 0 1 \<lparr>tops = zeros 1 2, bots = zeros 1 2, neg = Fin (- 1), pos = Fin 4\<rparr> =
     \<lparr>tops = [[Fin 0, Fin 4]], bots = [[Fin 0, Fin 4]], neg = Fin (- 1), pos = Fin 4\<rparr> \<and>
   1 < length (index zero_example) \<and> row zero_example 1 = map Fin [1, 0, 2] \<and>
   1 < length [1, 0, 2 :: real] \<and> [1, 0, 2 :: real] ! 1 = 0 \<and>
   cell (fst (tops_bottoms zero_example)) 1 1 = Fin 1 \<and>
   cell (snd (tops_bottoms zero_example)) 1 1 = Fin 1"
  using tops_bottoms_zero_segment [where dfa = "[[Fin 4, Fin 0]]" and k = 0 and l = 1
      and st = "\<lparr>tops = zeros 1 2, bots = zeros 1 2, neg = Fin (- 1), pos = Fin 4\<rparr>"
      and i = 1 and df = zero_example and vs = "[1, 0, 2]" and j = 1]
  by (simp add: zero_example_def row_def zeros_def assign_def numeral_2_eq_2)

text \<open>
  Claim C10, amended. In every row, a cell of value \<open>v >= 0\<close> has
  \<open>top = bottom + v\<close> and every other cell has \<open>bottom = top + v\<close>, with the addition
  of the cells. So in a row of finite values every cell has its bottom below or at its
  top, and in exact arithmetic the height \<open>top - bottom\<close> is the absolute value of the
  cell of the input. A row of the outputs depends on the same row of the input only: two
  tables that agree on a row have the same tops and bottoms for it.
\<close>

theorem tops_bottoms_segment_height:
  "(i < length (index df) \<and> j < length (columns df) \<longrightarrow>
      (if fge (cell df i j) (Fin 0)
       then cell (fst (tops_bottoms df)) i j = fadd (cell (snd (tops_bottoms df)) i j) (cell df i j)
       else cell (snd (tops_bottoms df)) i j = fadd (cell (fst (tops_bottoms df)) i j) (cell df i j))) \<and>
   (i < length (index df) \<and> row df i = map Fin vs \<and> j < length vs \<longrightarrow>
      (\<exists>t b. cell (fst (tops_bottoms df)) i j = Fin t \<and>
             cell (snd (tops_bottoms df)) i j = Fin b \<and>
             b \<le> t \<and> t - b = \<bar>vs ! j\<bar>)) \<and>
   (i < length (index df) \<and> i' < length (index df') \<and> row df' i' = row df i \<longrightarrow>
      row (fst (tops_bottoms df')) i' = row (fst (tops_bottoms df)) i \<and>
      row (snd (tops_bottoms df')) i' = row (snd (tops_bottoms df)) i)"
proof (intro conjI impI)
  assume a: "i < length (index df) \<and> j < length (columns df)"
  then have j: "j < length (row df i)" by (simp add: row_def)
  have "cell (fst (tops_bottoms df)) i j = fst (segments (Fin 0) (Fin 0) (row df i) ! j)"
    and "cell (snd (tops_bottoms df)) i j = snd (segments (Fin 0) (Fin 0) (row df i) ! j)"
    and "cell df i j = row df i ! j"
    using a j by (simp_all add: cell_row tops_bottoms_rows)
  then show "if fge (cell df i j) (Fin 0)
       then cell (fst (tops_bottoms df)) i j = fadd (cell (snd (tops_bottoms df)) i j) (cell df i j)
       else cell (snd (tops_bottoms df)) i j = fadd (cell (fst (tops_bottoms df)) i j) (cell df i j)"
    using segments_step [OF j, of "Fin 0" "Fin 0"] by simp
next
  assume a: "i < length (index df) \<and> row df i = map Fin vs \<and> j < length vs"
  then have jc: "j < length (columns df)" by (metis length_map row_def)
  let ?s = "spec_segments 0 0 vs ! j"
  have "cell (fst (tops_bottoms df)) i j = Fin (fst ?s)"
    and "cell (snd (tops_bottoms df)) i j = Fin (snd ?s)"
    using jc a tops_bottoms_finite_row [of i df vs] by (simp_all add: cell_row)
  moreover have "snd ?s \<le> fst ?s \<and> fst ?s - snd ?s = \<bar>vs ! j\<bar>"
    using spec_segments_order [of j vs 0 0] a by simp
  ultimately show "\<exists>t b. cell (fst (tops_bottoms df)) i j = Fin t \<and>
                         cell (snd (tops_bottoms df)) i j = Fin b \<and>
                         b \<le> t \<and> t - b = \<bar>vs ! j\<bar>" by blast
next
  assume "i < length (index df) \<and> i' < length (index df') \<and> row df' i' = row df i"
  then show "row (fst (tops_bottoms df')) i' = row (fst (tops_bottoms df)) i"
    and "row (snd (tops_bottoms df')) i' = row (snd (tops_bottoms df)) i"
    by (simp_all add: tops_bottoms_rows)
qed

text \<open>
  Claim C10 (amended) at the cell of value -1 in the first row of \<open>zero_example\<close>,
  and at \<open>swapped_example\<close>, which holds that row as its second one.
\<close>

theorem tops_bottoms_segment_height_witness:
  "0 < length (index zero_example) \<and> Suc 0 < length (columns zero_example) \<and>
   \<not> fge (cell zero_example 0 (Suc 0)) (Fin 0) \<and>
   cell (snd (tops_bottoms zero_example)) 0 (Suc 0) =
     fadd (cell (fst (tops_bottoms zero_example)) 0 (Suc 0)) (cell zero_example 0 (Suc 0)) \<and>
   row zero_example 0 = map Fin [4, - 1, 0] \<and>
   Suc 0 < length [4, - 1, 0 :: real] \<and>
   (\<exists>t b. cell (fst (tops_bottoms zero_example)) 0 (Suc 0) = Fin t \<and>
          cell (snd (tops_bottoms zero_example)) 0 (Suc 0) = Fin b \<and>
          b \<le> t \<and> t - b = 1) \<and>
   Suc 0 < length (index swapped_example) \<and> row swapped_example (Suc 0) = row zero_example 0 \<and>
   row (fst (tops_bottoms swapped_example)) (Suc 0) = row (fst (tops_bottoms zero_example)) 0 \<and>
   row (snd (tops_bottoms swapped_example)) (Suc 0) = row (snd (tops_bottoms zero_example)) 0"
proof -
  have h: "0 < length (index zero_example)" "Suc 0 < length (columns zero_example)"
    "row zero_example 0 = map Fin [4, - 1, 0]" "Suc 0 < length [4, - 1, 0 :: real]"
    "Suc 0 < length (index swapped_example)" "row swapped_example (Suc 0) = row zero_example 0"
    by (simp_all add: zero_example_def swapped_example_def row_def)
  have c: "cell zero_example 0 (Suc 0) = Fin (- 1)" by (simp add: zero_example_def cell_def)
  note inst = tops_bottoms_segment_height [where i = 0 and df = zero_example
      and vs = "[4, - 1, 0]" and j = "Suc 0" and i' = "Suc 0" and df' = swapped_example]
  have 1: "cell (snd (tops_bottoms zero_example)) 0 (Suc 0) =
     fadd (cell (fst (tops_bottoms zero_example)) 0 (Suc 0)) (cell zero_example 0 (Suc 0))"
    using inst h(1,2) by (simp add: c)
  have 2: "\<exists>t b. cell (fst (tops_bottoms zero_example)) 0 (Suc 0) = Fin t \<and>
          cell (snd (tops_bottoms zero_example)) 0 (Suc 0) = Fin b \<and>
          b \<le> t \<and> t - b = 1"
    using inst h(1,3,4) by simp
  have 3: "row (fst (tops_bottoms swapped_example)) (Suc 0) = row (fst (tops_bottoms zero_example)) 0"
    "row (snd (tops_bottoms swapped_example)) (Suc 0) = row (snd (tops_bottoms zero_example)) 0"
    using inst h(1,5,6) by simp_all
  show ?thesis using h c 1 2 3 by simp
qed

text \<open>
  Claim C10 as stated fails on a row that holds NaN: in the row \<open>[1, NaN, -2]\<close>
  the cell of value -2 has the top NaN and the bottom NaN, which are not ordered and whose
  difference is not 2.
\<close>

theorem nan_row_breaks_height:
  "cell nan_row_example 0 2 = Fin (- 2) \<and>
   cell (fst (tops_bottoms nan_row_example)) 0 2 = NaN \<and>
   cell (snd (tops_bottoms nan_row_example)) 0 2 = NaN \<and>
   \<not> fge (cell (fst (tops_bottoms nan_row_example)) 0 2) (cell (snd (tops_bottoms nan_row_example)) 0 2) \<and>
   fsub (cell (fst (tops_bottoms nan_row_example)) 0 2) (cell (snd (tops_bottoms nan_row_example)) 0 2)
     \<noteq> Fin \<bar>- 2\<bar>"
proof -
  have l: "2 < length (columns (fst (tops_bottoms nan_row_example)))"
    "2 < length (columns (snd (tops_bottoms nan_row_example)))"
    by (simp_all add: nan_row_example_def)
  have c: "cell nan_row_example 0 2 = Fin (- 2)"
    by (simp add: nan_row_example_def cell_def)
  have t: "cell (fst (tops_bottoms nan_row_example)) 0 2 = NaN"
    using l by (simp add: cell_row nan_row_outputs)
  have b: "cell (snd (tops_bottoms nan_row_example)) 0 2 = NaN"
    using l by (simp add: cell_row nan_row_outputs)
  show ?thesis by (simp add: c t b fsub_def)
qed

section \<open>The run of extract_dfs\<close>

lemma andthen_simps [simp]:
  "andthen (Inr x) f = f x" "andthen (Inl e) f = Inl e"
  by (simp_all add: andthen_def)

lemma deref_in [simp]: "a < length s \<Longrightarrow> deref s a = Inr (s ! a)"
  by (simp add: deref_def)

lemma getitem_Some:
  "a < length s \<Longrightarrow> map_of (columns (s ! a)) name = Some c \<Longrightarrow> getitem s a name = Inr c"
  by (simp add: getitem_def)

lemma setitem_in:
  "a < length s \<Longrightarrow>
   setitem s a name col = Inr (s[a := (s ! a)\<lparr>columns := AList.update name col (columns (s ! a))\<rparr>])"
  by (simp add: setitem_def)

lemma labels_map_of: "name \<in> labels f \<Longrightarrow> \<exists>c. map_of (columns f) name = Some c"
  by (metis labels_def map_of_eq_None_iff not_Some_eq)

lemma rect_map_of: "rect N f \<Longrightarrow> map_of (columns f) name = Some c \<Longrightarrow> length c = N"
  by (auto simp: rect_def dest!: map_of_SomeD)

lemma set_update_subset: "set (AList.update k v al) \<subseteq> insert (k, v) (set al)"
  by (induction al) auto

lemma rect_update:
  "rect N f \<Longrightarrow> length col = N \<Longrightarrow> rect N (f\<lparr>columns := AList.update name col (columns f)\<rparr>)"
  using set_update_subset [of name col "columns f"] by (auto simp: rect_def)

lemma labels_update [simp]:
  "labels (f\<lparr>columns := AList.update name col (columns f)\<rparr>) = insert name (labels f)"
  by (simp add: labels_def AList.dom_update)

lemma length_shift [simp]: "length (shift xs) = length xs"
  by (simp add: shift_def)

lemma length_series [simp]:
  "length (series_sub xs ys) = min (length xs) (length ys)"
  "length (series_mul xs ys) = min (length xs) (length ys)"
  "length (series_div xs ys) = min (length xs) (length ys)"
  by (simp_all add: series_sub_def series_mul_def series_div_def)

lemma length_growth_series [simp]:
  "length (growth_series cur orig) = min (length cur) (length orig)"
  by (simp add: growth_series_def)

lemma length_contrib_series [simp]:
  "length (contrib_series g cur tot) = min (min (length g) (length cur)) (length tot)"
  by (simp add: contrib_series_def)

lemma label_facts [simp]:
  "pctg_growth c \<noteq> ''total''" "contrib c \<noteq> ''total''"
  "''total'' \<noteq> pctg_growth c" "''total'' \<noteq> contrib c"
  "pctg_growth c \<noteq> contrib c'" "contrib c' \<noteq> pctg_growth c"
  "contrib c \<noteq> ''pctg_growth_total''" "''pctg_growth_total'' \<noteq> contrib c"
  "(pctg_growth c = pctg_growth c') = (c = c')"
  "(contrib c = contrib c') = (c = c')"
  "(pctg_growth c = ''pctg_growth_total'') = (c = ''total'')"
  "(''pctg_growth_total'' = pctg_growth c) = (c = ''total'')"
  by (auto simp: pctg_growth_def contrib_def)

lemma label_image_facts [simp]:
  "''total'' \<notin> contrib ` A" "''total'' \<notin> pctg_growth ` A"
  "''pctg_growth_total'' \<notin> contrib ` A"
  "pctg_growth c \<notin> contrib ` A" "contrib c \<notin> pctg_growth ` A"
  "(pctg_growth c \<in> pctg_growth ` A) = (c \<in> A)"
  "(contrib c \<in> contrib ` A) = (c \<in> A)"
  "(''pctg_growth_total'' \<in> pctg_growth ` A) = (''total'' \<in> A)"
  by (auto simp: image_iff)

lemma growth_loop_ex:
  assumes "a < length s" "b < length s" "a \<noteq> b" "rect N (s ! a)" "rect N (s ! b)"
    "set cats \<subseteq> labels (s ! a)" "set cats \<subseteq> labels (s ! b)"
  shows "\<exists>F. growth_loop s a b cats = Inr (s[b := F]) \<and> index F = index (s ! b) \<and> rect N F \<and>
           labels F = labels (s ! b) \<union> pctg_growth ` set cats \<and>
           (\<forall>name. name \<notin> pctg_growth ` set cats \<longrightarrow>
                map_of (columns F) name = map_of (columns (s ! b)) name) \<and>
           ((\<forall>c\<in>set cats. pctg_growth c \<notin> set cats) \<longrightarrow>
              (\<forall>c\<in>set cats. map_of (columns F) (pctg_growth c) =
                 Some (growth_series (the (map_of (columns (s ! b)) c))
                                     (the (map_of (columns (s ! a)) c)))))"
  using assms
proof (induction cats arbitrary: s)
  case Nil
  show ?case
    by (rule exI [of _ "s ! b"]) (use Nil in \<open>simp add: list_update_same_conv\<close>)
next
  case (Cons c cs)
  from Cons.prems obtain cur where cur: "map_of (columns (s ! b)) c = Some cur"
    using labels_map_of [of c "s ! b"] by auto
  from Cons.prems obtain orig where orig: "map_of (columns (s ! a)) c = Some orig"
    using labels_map_of [of c "s ! a"] by auto
  have lc: "length cur = N" "length orig = N"
    using rect_map_of cur orig Cons.prems by blast+
  let ?col = "growth_series cur orig"
  let ?F1 = "(s ! b)\<lparr>columns := AList.update (pctg_growth c) ?col (columns (s ! b))\<rparr>"
  let ?s1 = "s[b := ?F1]"
  have step: "growth_loop s a b (c # cs) = growth_loop ?s1 a b cs"
    using Cons.prems cur orig
    by (simp add: getitem_Some setitem_in growth_series_def)
  have p1: "a < length ?s1" "b < length ?s1" "?s1 ! a = s ! a" "?s1 ! b = ?F1"
    using Cons.prems by simp_all
  have r1: "rect N ?F1" using Cons.prems lc by (intro rect_update) simp_all
  have "\<exists>F. growth_loop ?s1 a b cs = Inr (?s1[b := F]) \<and> index F = index (?s1 ! b) \<and> rect N F \<and>
           labels F = labels (?s1 ! b) \<union> pctg_growth ` set cs \<and>
           (\<forall>name. name \<notin> pctg_growth ` set cs \<longrightarrow>
                map_of (columns F) name = map_of (columns (?s1 ! b)) name) \<and>
           ((\<forall>c\<in>set cs. pctg_growth c \<notin> set cs) \<longrightarrow>
              (\<forall>c\<in>set cs. map_of (columns F) (pctg_growth c) =
                 Some (growth_series (the (map_of (columns (?s1 ! b)) c))
                                     (the (map_of (columns (?s1 ! a)) c)))))"
  proof (rule Cons.IH)
    show "a < length ?s1" "b < length ?s1" "a \<noteq> b" using p1 Cons.prems by simp_all
    show "rect N (?s1 ! a)" using p1 Cons.prems by simp
    show "rect N (?s1 ! b)" using p1 r1 by simp
    show "set cs \<subseteq> labels (?s1 ! a)" using p1 Cons.prems by simp
    show "set cs \<subseteq> labels (?s1 ! b)" using p1 Cons.prems by auto
  qed
  then obtain F where F: "growth_loop ?s1 a b cs = Inr (?s1[b := F])" "index F = index ?F1" "rect N F"
    "labels F = labels ?F1 \<union> pctg_growth ` set cs"
    "\<And>name. name \<notin> pctg_growth ` set cs \<Longrightarrow> map_of (columns F) name = map_of (columns ?F1) name"
    "(\<forall>c\<in>set cs. pctg_growth c \<notin> set cs) \<Longrightarrow>
       (\<forall>c\<in>set cs. map_of (columns F) (pctg_growth c) =
                 Some (growth_series (the (map_of (columns ?F1) c))
                                     (the (map_of (columns (s ! a)) c))))"
    unfolding p1 by blast
  have c1: "growth_loop s a b (c # cs) = Inr (s[b := F])" using step F(1) by simp
  have c2: "index F = index (s ! b)" using F(2) by simp
  have c4: "labels F = labels (s ! b) \<union> pctg_growth ` set (c # cs)" using F(4) by auto
  have c5: "map_of (columns F) name = map_of (columns (s ! b)) name"
    if "name \<notin> pctg_growth ` set (c # cs)" for name
    using that F(5) [of name] by (auto simp: AList.update_conv')
  have c6: "map_of (columns F) (pctg_growth c') =
            Some (growth_series (the (map_of (columns (s ! b)) c')) (the (map_of (columns (s ! a)) c')))"
    if fresh: "\<forall>x\<in>set (c # cs). pctg_growth x \<notin> set (c # cs)" and c': "c' \<in> set (c # cs)" for c'
  proof -
    have keep: "map_of (columns ?F1) x = map_of (columns (s ! b)) x" if "x \<in> set (c # cs)" for x
      using fresh that by (auto simp: AList.update_conv')
    show ?thesis
    proof (cases "c' \<in> set cs")
      case True
      then show ?thesis using F(6) fresh keep [of c'] by auto
    next
      case False
      then have "c' = c" using c' by simp
      moreover have "pctg_growth c \<notin> pctg_growth ` set cs" using False \<open>c' = c\<close> by auto
      ultimately show ?thesis using F(5) [of "pctg_growth c"] cur orig
        by (simp add: AList.update_conv')
    qed
  qed
  show ?case
    using c1 c2 F(3) c4 c5 c6 by (intro exI [of _ F]) blast
qed

lemma contrib_loop_ex:
  assumes "b < length s" "rect N (s ! b)" "set cats \<subseteq> labels (s ! b)"
    "pctg_growth ` set cats \<subseteq> labels (s ! b)" "''total'' \<in> labels (s ! b)"
  shows "\<exists>F. contrib_loop s b cats = Inr (s[b := F]) \<and> index F = index (s ! b) \<and> rect N F \<and>
           labels F = labels (s ! b) \<union> contrib ` set cats \<and>
           (\<forall>name. name \<notin> contrib ` set cats \<longrightarrow>
                map_of (columns F) name = map_of (columns (s ! b)) name) \<and>
           ((\<forall>x\<in>set cats. contrib x \<notin> set cats) \<longrightarrow>
              (\<forall>x\<in>set cats. map_of (columns F) (contrib x) =
                 Some (contrib_series (the (map_of (columns (s ! b)) (pctg_growth x)))
                                      (the (map_of (columns (s ! b)) x))
                                      (the (map_of (columns (s ! b)) ''total'')))))"
  using assms
proof (induction cats arbitrary: s)
  case Nil
  show ?case
    by (rule exI [of _ "s ! b"]) (use Nil in \<open>simp add: list_update_same_conv\<close>)
next
  case (Cons c cs)
  from Cons.prems obtain g where g: "map_of (columns (s ! b)) (pctg_growth c) = Some g"
    using labels_map_of [of "pctg_growth c" "s ! b"] by auto
  from Cons.prems obtain cur where cur: "map_of (columns (s ! b)) c = Some cur"
    using labels_map_of [of c "s ! b"] by auto
  from Cons.prems obtain tot where tot: "map_of (columns (s ! b)) ''total'' = Some tot"
    using labels_map_of [of "''total''" "s ! b"] by auto
  have lc: "length g = N" "length cur = N" "length tot = N"
    using rect_map_of g cur tot Cons.prems by blast+
  let ?col = "contrib_series g cur tot"
  let ?F1 = "(s ! b)\<lparr>columns := AList.update (contrib c) ?col (columns (s ! b))\<rparr>"
  let ?s1 = "s[b := ?F1]"
  have step: "contrib_loop s b (c # cs) = contrib_loop ?s1 b cs"
    using Cons.prems g cur tot
    by (simp add: getitem_Some setitem_in contrib_series_def)
  have p1: "b < length ?s1" "?s1 ! b = ?F1"
    using Cons.prems by simp_all
  have r1: "rect N ?F1" using Cons.prems lc by (intro rect_update) simp_all
  have "\<exists>F. contrib_loop ?s1 b cs = Inr (?s1[b := F]) \<and> index F = index (?s1 ! b) \<and> rect N F \<and>
           labels F = labels (?s1 ! b) \<union> contrib ` set cs \<and>
           (\<forall>name. name \<notin> contrib ` set cs \<longrightarrow>
                map_of (columns F) name = map_of (columns (?s1 ! b)) name) \<and>
           ((\<forall>x\<in>set cs. contrib x \<notin> set cs) \<longrightarrow>
              (\<forall>x\<in>set cs. map_of (columns F) (contrib x) =
                 Some (contrib_series (the (map_of (columns (?s1 ! b)) (pctg_growth x)))
                                      (the (map_of (columns (?s1 ! b)) x))
                                      (the (map_of (columns (?s1 ! b)) ''total'')))))"
  proof (rule Cons.IH)
    show "b < length ?s1" using p1 by simp
    show "rect N (?s1 ! b)" using p1 r1 by simp
    show "set cs \<subseteq> labels (?s1 ! b)" using p1 Cons.prems by auto
    show "pctg_growth ` set cs \<subseteq> labels (?s1 ! b)" using p1 Cons.prems by auto
    show "''total'' \<in> labels (?s1 ! b)" using p1 Cons.prems by auto
  qed
  then obtain F where F: "contrib_loop ?s1 b cs = Inr (?s1[b := F])" "index F = index ?F1" "rect N F"
    "labels F = labels ?F1 \<union> contrib ` set cs"
    "\<And>name. name \<notin> contrib ` set cs \<Longrightarrow> map_of (columns F) name = map_of (columns ?F1) name"
    "(\<forall>x\<in>set cs. contrib x \<notin> set cs) \<Longrightarrow>
       (\<forall>x\<in>set cs. map_of (columns F) (contrib x) =
                 Some (contrib_series (the (map_of (columns ?F1) (pctg_growth x)))
                                      (the (map_of (columns ?F1) x))
                                      (the (map_of (columns ?F1) ''total''))))"
    unfolding p1 by blast
  have c1: "contrib_loop s b (c # cs) = Inr (s[b := F])" using step F(1) by simp
  have c2: "index F = index (s ! b)" using F(2) by simp
  have c4: "labels F = labels (s ! b) \<union> contrib ` set (c # cs)" using F(4) by auto
  have c5: "map_of (columns F) name = map_of (columns (s ! b)) name"
    if "name \<notin> contrib ` set (c # cs)" for name
    using that F(5) [of name] by (auto simp: AList.update_conv')
  have c6: "map_of (columns F) (contrib c') =
            Some (contrib_series (the (map_of (columns (s ! b)) (pctg_growth c')))
                                 (the (map_of (columns (s ! b)) c'))
                                 (the (map_of (columns (s ! b)) ''total'')))"
    if fresh: "\<forall>x\<in>set (c # cs). contrib x \<notin> set (c # cs)" and c': "c' \<in> set (c # cs)" for c'
  proof -
    have keep: "map_of (columns ?F1) x = map_of (columns (s ! b)) x" if "x \<in> set (c # cs)" for x
      using fresh that by (auto simp: AList.update_conv')
    have keep': "map_of (columns ?F1) (pctg_growth x) = map_of (columns (s ! b)) (pctg_growth x)"
      "map_of (columns ?F1) ''total'' = map_of (columns (s ! b)) ''total''" for x
      by (simp_all add: AList.update_conv')
    show ?thesis
    proof (cases "c' \<in> set cs")
      case True
      then show ?thesis using F(6) fresh keep [of c'] keep' by auto
    next
      case False
      then have "c' = c" using c' by simp
      moreover have "contrib c \<notin> contrib ` set cs" using False \<open>c' = c\<close> by auto
      ultimately show ?thesis using F(5) [of "contrib c"] g cur tot
        by (simp add: AList.update_conv')
    qed
  qed
  show ?case
    using c1 c2 F(3) c4 c5 c6 by (intro exI [of _ F]) blast
qed

lemma growth_loop_written:
  assumes "a < length s" "b < length s" "a \<noteq> b" "rect N (s ! a)" "rect N (s ! b)"
    "set cats \<subseteq> labels (s ! a)" "set cats \<subseteq> labels (s ! b)"
    "growth_loop s a b cats = Inr s'"
  shows "\<forall>c\<in>set cats. \<exists>cur orig. length cur = N \<and> length orig = N \<and>
           map_of (columns (s' ! b)) (pctg_growth c) = Some (growth_series cur orig) \<and>
           (c \<notin> pctg_growth ` set cats \<longrightarrow> cur = the (map_of (columns (s ! b)) c))"
  using assms
proof (induction cats arbitrary: s)
  case Nil
  then show ?case by simp
next
  case (Cons c cs)
  from Cons.prems obtain cur where cur: "map_of (columns (s ! b)) c = Some cur"
    using labels_map_of [of c "s ! b"] by auto
  from Cons.prems obtain orig where orig: "map_of (columns (s ! a)) c = Some orig"
    using labels_map_of [of c "s ! a"] by auto
  have lc: "length cur = N" "length orig = N"
    using rect_map_of cur orig Cons.prems by blast+
  let ?col = "growth_series cur orig"
  let ?F1 = "(s ! b)\<lparr>columns := AList.update (pctg_growth c) ?col (columns (s ! b))\<rparr>"
  let ?s1 = "s[b := ?F1]"
  have step: "growth_loop s a b (c # cs) = growth_loop ?s1 a b cs"
    using Cons.prems cur orig
    by (simp add: getitem_Some setitem_in growth_series_def)
  have p1: "a < length ?s1" "b < length ?s1" "?s1 ! a = s ! a" "?s1 ! b = ?F1"
    using Cons.prems by simp_all
  have r1: "rect N ?F1" using Cons.prems lc by (intro rect_update) simp_all
  have pre: "rect N (?s1 ! a)" "rect N (?s1 ! b)" "set cs \<subseteq> labels (?s1 ! a)"
    "set cs \<subseteq> labels (?s1 ! b)"
    using p1 r1 Cons.prems by auto
  have run1: "growth_loop ?s1 a b cs = Inr s'" using Cons.prems(8) step by simp
  note IH = Cons.IH [OF p1(1,2) Cons.prems(3) pre run1]
  from growth_loop_ex [OF p1(1,2) Cons.prems(3) pre] run1
  have same: "map_of (columns (s' ! b)) name = map_of (columns ?F1) name"
    if "name \<notin> pctg_growth ` set cs" for name
    using that p1(2) by auto
  show ?case
  proof
    fix c' assume c': "c' \<in> set (c # cs)"
    show "\<exists>cur orig. length cur = N \<and> length orig = N \<and>
           map_of (columns (s' ! b)) (pctg_growth c') = Some (growth_series cur orig) \<and>
           (c' \<notin> pctg_growth ` set (c # cs) \<longrightarrow> cur = the (map_of (columns (s ! b)) c'))"
    proof (cases "c' \<in> set cs")
      case True
      with IH obtain cur' orig' where
        "length cur' = N" "length orig' = N"
        "map_of (columns (s' ! b)) (pctg_growth c') = Some (growth_series cur' orig')"
        "c' \<notin> pctg_growth ` set cs \<longrightarrow> cur' = the (map_of (columns (?s1 ! b)) c')"
        by blast
      moreover have "map_of (columns ?F1) c' = map_of (columns (s ! b)) c'"
        if "c' \<notin> pctg_growth ` set (c # cs)"
        using that by (auto simp: AList.update_conv')
      ultimately show ?thesis using p1(4) by (intro exI [of _ cur'] exI [of _ orig']) auto
    next
      case False
      then have e: "c' = c" using c' by simp
      have "pctg_growth c \<notin> pctg_growth ` set cs" using False e by simp
      from same [OF this] have "map_of (columns (s' ! b)) (pctg_growth c) = Some ?col"
        by (simp add: AList.update_conv')
      then show ?thesis using e lc cur by (intro exI [of _ cur] exI [of _ orig]) simp
    qed
  qed
qed

lemma contrib_loop_written:
  assumes "b < length s" "rect N (s ! b)" "set cats \<subseteq> labels (s ! b)"
    "pctg_growth ` set cats \<subseteq> labels (s ! b)" "''total'' \<in> labels (s ! b)"
    "contrib_loop s b cats = Inr s'"
  shows "\<forall>c\<in>set cats. \<exists>g cur. length g = N \<and> length cur = N \<and>
           map_of (columns (s' ! b)) (contrib c) =
             Some (contrib_series g cur (the (map_of (columns (s ! b)) ''total'')))"
  using assms
proof (induction cats arbitrary: s)
  case Nil
  then show ?case by simp
next
  case (Cons c cs)
  from Cons.prems obtain g where g: "map_of (columns (s ! b)) (pctg_growth c) = Some g"
    using labels_map_of [of "pctg_growth c" "s ! b"] by auto
  from Cons.prems obtain cur where cur: "map_of (columns (s ! b)) c = Some cur"
    using labels_map_of [of c "s ! b"] by auto
  from Cons.prems obtain tot where tot: "map_of (columns (s ! b)) ''total'' = Some tot"
    using labels_map_of [of "''total''" "s ! b"] by auto
  have lc: "length g = N" "length cur = N" "length tot = N"
    using rect_map_of g cur tot Cons.prems by blast+
  let ?col = "contrib_series g cur tot"
  let ?F1 = "(s ! b)\<lparr>columns := AList.update (contrib c) ?col (columns (s ! b))\<rparr>"
  let ?s1 = "s[b := ?F1]"
  have step: "contrib_loop s b (c # cs) = contrib_loop ?s1 b cs"
    using Cons.prems g cur tot
    by (simp add: getitem_Some setitem_in contrib_series_def)
  have p1: "b < length ?s1" "?s1 ! b = ?F1"
    using Cons.prems by simp_all
  have r1: "rect N ?F1" using Cons.prems lc by (intro rect_update) simp_all
  have pre: "rect N (?s1 ! b)" "set cs \<subseteq> labels (?s1 ! b)"
    "pctg_growth ` set cs \<subseteq> labels (?s1 ! b)" "''total'' \<in> labels (?s1 ! b)"
    using p1 r1 Cons.prems by auto
  have run1: "contrib_loop ?s1 b cs = Inr s'" using Cons.prems(6) step by simp
  note IH = Cons.IH [OF p1(1) pre run1]
  from contrib_loop_ex [OF p1(1) pre] run1
  have same: "map_of (columns (s' ! b)) name = map_of (columns ?F1) name"
    if "name \<notin> contrib ` set cs" for name
    using that p1(1) by auto
  have tot1: "map_of (columns (?s1 ! b)) ''total'' = Some tot"
    using tot p1 by (simp add: AList.update_conv')
  show ?case
  proof
    fix c' assume c': "c' \<in> set (c # cs)"
    show "\<exists>g cur. length g = N \<and> length cur = N \<and>
           map_of (columns (s' ! b)) (contrib c') =
             Some (contrib_series g cur (the (map_of (columns (s ! b)) ''total'')))"
    proof (cases "c' \<in> set cs")
      case True
      with IH tot1 tot show ?thesis by simp
    next
      case False
      then have e: "c' = c" using c' by simp
      have "contrib c \<notin> contrib ` set cs" using False e by simp
      from same [OF this] have "map_of (columns (s' ! b)) (contrib c) = Some ?col"
        by (simp add: AList.update_conv')
      then show ?thesis using e lc tot by (intro exI [of _ g] exI [of _ cur]) simp
    qed
  qed
qed

lemma lookup_all_in:
  "set names \<subseteq> fst ` set cs \<Longrightarrow>
   lookup_all cs names = Inr (map (\<lambda>n. (n, the (map_of cs n))) names)"
proof (induction names)
  case Nil
  then show ?case by simp
next
  case (Cons n ns)
  then obtain c where "map_of cs n = Some c"
    by (metis list.set_intros(1) map_of_eq_None_iff not_Some_eq subsetD)
  with Cons show ?case by simp
qed

lemma length_row_sums [simp]: "length (row_sums f) = length (index f)"
  by (simp add: row_sums_def)

lemma extract_dfs_run:
  fixes s0 :: "'p store"
  assumes a: "a < length s0" and r: "rect N (s0 ! a)"
  defines "df \<equiv> s0 ! a"
  defines "cats \<equiv> map fst (columns (s0 ! a))"
  defines "T \<equiv> row_sums (s0 ! a)"
  shows "\<exists>W. extract_dfs s0 a =
               Inr ((tail (growth_frame W), tail (contrib_frame W cats)),
                    s0 @ [W, growth_frame W, contrib_frame W cats]) \<and>
             index W = index df \<and> rect N W \<and>
             ''pctg_growth_total'' \<in> labels W \<and> contrib ` set cats \<subseteq> labels W \<and>
             pctg_growth ` set cats \<subseteq> labels W \<and>
             map_of (columns W) ''total'' = Some T \<and>
             (\<exists>orig. length orig = N \<and>
                map_of (columns W) ''pctg_growth_total'' = Some (growth_series T orig)) \<and>
             (\<forall>c\<in>set cats. \<exists>g cur. length g = N \<and> length cur = N \<and>
                map_of (columns W) (contrib c) = Some (contrib_series g cur T)) \<and>
             (valid_labels cats \<longrightarrow>
                map_of (columns W) ''pctg_growth_total'' = Some (growth_series T T) \<and>
                (\<forall>c\<in>set (columns df).
                   map_of (columns W) (pctg_growth (fst c)) = Some (growth_series (snd c) (snd c)) \<and>
                   map_of (columns W) (contrib (fst c)) =
                     Some (contrib_series (growth_series (snd c) (snd c)) (snd c) T)))"
proof -
  let ?b = "length s0"
  let ?s1 = "s0 @ [df]"
  have lT: "length T = N" using r by (simp add: T_def rect_def)
  have e1: "copy s0 a = Inr (?s1, ?b)"
    using a by (simp add: copy_def alloc_def df_def)
  have e2: "column_labels ?s1 ?b = Inr cats"
    by (simp add: column_labels_def cats_def df_def)
  have e3: "sum_axis1 ?s1 ?b = Inr T"
    by (simp add: sum_axis1_def T_def row_sums_def df_def)
  let ?F2 = "df\<lparr>columns := AList.update ''total'' T (columns df)\<rparr>"
  have e4: "setitem ?s1 ?b ''total'' T = Inr (s0 @ [?F2])"
    by (simp add: setitem_in)
  have e5: "getitem (s0 @ [?F2]) ?b ''total'' = Inr T"
    by (simp add: getitem_Some AList.update_conv')
  let ?F3 = "df\<lparr>columns := AList.update ''pctg_growth_total'' (growth_series T T)
                              (AList.update ''total'' T (columns df))\<rparr>"
  let ?s3 = "s0 @ [?F3]"
  have e6: "setitem (s0 @ [?F2]) ?b ''pctg_growth_total''
              (series_div (series_sub T (shift T)) (shift T)) = Inr ?s3"
    by (simp add: setitem_in growth_series_def)
  have rdf: "rect N df" using r by (simp add: df_def)
  have "rect N (?F2\<lparr>columns := AList.update ''pctg_growth_total'' (growth_series T T) (columns ?F2)\<rparr>)"
    using rdf lT by (intro rect_update) simp_all
  then have rF3: "rect N ?F3" by simp
  have cl: "set cats \<subseteq> labels df" by (simp add: cats_def labels_def df_def)
  have lF3: "labels ?F3 = insert ''pctg_growth_total'' (insert ''total'' (labels df))"
    by (auto simp: labels_def AList.dom_update)
  have "\<exists>F. growth_loop ?s3 a ?b cats = Inr (?s3[?b := F]) \<and> index F = index (?s3 ! ?b) \<and> rect N F \<and>
           labels F = labels (?s3 ! ?b) \<union> pctg_growth ` set cats \<and>
           (\<forall>name. name \<notin> pctg_growth ` set cats \<longrightarrow>
                map_of (columns F) name = map_of (columns (?s3 ! ?b)) name) \<and>
           ((\<forall>c\<in>set cats. pctg_growth c \<notin> set cats) \<longrightarrow>
              (\<forall>c\<in>set cats. map_of (columns F) (pctg_growth c) =
                 Some (growth_series (the (map_of (columns (?s3 ! ?b)) c))
                                     (the (map_of (columns (?s3 ! a)) c)))))"
  proof (rule growth_loop_ex)
    show "a < length ?s3" "?b < length ?s3" "a \<noteq> ?b" using a by simp_all
    show "rect N (?s3 ! a)" using a rdf by (simp add: nth_append df_def)
    show "rect N (?s3 ! ?b)" using rF3 by simp
    show "set cats \<subseteq> labels (?s3 ! a)" using a cl by (simp add: nth_append df_def)
    show "set cats \<subseteq> labels (?s3 ! ?b)" using cl lF3 by auto
  qed
  then obtain F4 where F4: "growth_loop ?s3 a ?b cats = Inr (s0 @ [F4])" "index F4 = index df"
    "rect N F4"
    "labels F4 = insert ''pctg_growth_total'' (insert ''total'' (labels df)) \<union> pctg_growth ` set cats"
    "\<And>name. name \<notin> pctg_growth ` set cats \<Longrightarrow> map_of (columns F4) name = map_of (columns ?F3) name"
    "(\<forall>c\<in>set cats. pctg_growth c \<notin> set cats) \<Longrightarrow>
       (\<forall>c\<in>set cats. map_of (columns F4) (pctg_growth c) =
                 Some (growth_series (the (map_of (columns ?F3) c)) (the (map_of (columns df) c))))"
    using a lF3 by (auto simp: nth_append df_def)
  let ?s4 = "s0 @ [F4]"
  have "\<exists>F. contrib_loop ?s4 ?b cats = Inr (?s4[?b := F]) \<and> index F = index (?s4 ! ?b) \<and> rect N F \<and>
           labels F = labels (?s4 ! ?b) \<union> contrib ` set cats \<and>
           (\<forall>name. name \<notin> contrib ` set cats \<longrightarrow>
                map_of (columns F) name = map_of (columns (?s4 ! ?b)) name) \<and>
           ((\<forall>x\<in>set cats. contrib x \<notin> set cats) \<longrightarrow>
              (\<forall>x\<in>set cats. map_of (columns F) (contrib x) =
                 Some (contrib_series (the (map_of (columns (?s4 ! ?b)) (pctg_growth x)))
                                      (the (map_of (columns (?s4 ! ?b)) x))
                                      (the (map_of (columns (?s4 ! ?b)) ''total'')))))"
  proof (rule contrib_loop_ex)
    show "?b < length ?s4" by simp
    show "rect N (?s4 ! ?b)" using F4(3) by simp
    show "set cats \<subseteq> labels (?s4 ! ?b)" using cl F4(4) by auto
    show "pctg_growth ` set cats \<subseteq> labels (?s4 ! ?b)" using F4(4) by auto
    show "''total'' \<in> labels (?s4 ! ?b)" using F4(4) by auto
  qed
  then obtain W where W: "contrib_loop ?s4 ?b cats = Inr (s0 @ [W])" "index W = index df"
    "rect N W" "labels W = labels F4 \<union> contrib ` set cats"
    "\<And>name. name \<notin> contrib ` set cats \<Longrightarrow> map_of (columns W) name = map_of (columns F4) name"
    "(\<forall>x\<in>set cats. contrib x \<notin> set cats) \<Longrightarrow>
       (\<forall>x\<in>set cats. map_of (columns W) (contrib x) =
                 Some (contrib_series (the (map_of (columns F4) (pctg_growth x)))
                                      (the (map_of (columns F4) x))
                                      (the (map_of (columns F4) ''total''))))"
    using F4(2) by auto
  have lab: "''pctg_growth_total'' \<in> labels W" "contrib ` set cats \<subseteq> labels W"
    "pctg_growth ` set cats \<subseteq> labels W"
    using W(4) F4(4) by auto
  have tot: "map_of (columns W) ''total'' = Some T"
    using W(5) [of "''total''"] F4(5) [of "''total''"] by (auto simp: AList.update_conv')
  have m4t: "map_of (columns F4) ''total'' = Some T"
    using F4(5) [of "''total''"] by (auto simp: AList.update_conv')
  have m3t: "map_of (columns ?F3) ''total'' = Some T"
    by (simp add: AList.update_conv')
  have pre3: "a < length ?s3" "length s0 < length ?s3" "a \<noteq> length s0"
    "rect N (?s3 ! a)" "rect N (?s3 ! length s0)"
    "set cats \<subseteq> labels (?s3 ! a)" "set cats \<subseteq> labels (?s3 ! length s0)"
    using a rdf rF3 cl lF3 by (auto simp: nth_append df_def)
  have gen_g: "\<exists>orig. length orig = N \<and>
                map_of (columns W) ''pctg_growth_total'' = Some (growth_series T orig)"
  proof (cases "''total'' \<in> set cats")
    case True
    from growth_loop_written [OF pre3 F4(1)] True
    have "\<exists>cur orig. length cur = N \<and> length orig = N \<and>
           map_of (columns ((s0 @ [F4]) ! length s0)) (pctg_growth ''total'') =
             Some (growth_series cur orig) \<and>
           (''total'' \<notin> pctg_growth ` set cats \<longrightarrow>
              cur = the (map_of (columns (?s3 ! length s0)) ''total''))"
      by (rule bspec)
    then obtain cur orig where c1: "length orig = N"
      and c3: "map_of (columns ((s0 @ [F4]) ! length s0)) (pctg_growth ''total'') =
             Some (growth_series cur orig)"
      and c4: "''total'' \<notin> pctg_growth ` set cats \<longrightarrow>
              cur = the (map_of (columns (?s3 ! length s0)) ''total'')"
      by blast
    have "cur = T" using c4 m3t by simp
    then have "map_of (columns F4) ''pctg_growth_total'' = Some (growth_series T orig)"
      using c3 by (simp add: pctg_growth_def)
    then show ?thesis
      using W(5) [of "''pctg_growth_total''"] lT c1 by auto
  next
    case False
    then have "map_of (columns F4) ''pctg_growth_total'' = Some (growth_series T T)"
      using F4(5) [of "''pctg_growth_total''"] by (auto simp: AList.update_conv')
    then show ?thesis
      using W(5) [of "''pctg_growth_total''"] lT by auto
  qed
  have pre4: "length s0 < length ?s4" "rect N (?s4 ! length s0)"
    "set cats \<subseteq> labels (?s4 ! length s0)"
    "pctg_growth ` set cats \<subseteq> labels (?s4 ! length s0)" "''total'' \<in> labels (?s4 ! length s0)"
    using cl F4(3,4) by auto
  have gen_c: "\<forall>c\<in>set cats. \<exists>g cur. length g = N \<and> length cur = N \<and>
                map_of (columns W) (contrib c) = Some (contrib_series g cur T)"
    using contrib_loop_written [OF pre4 W(1)] m4t by simp
  obtain gcol where gcol: "map_of (columns W) ''pctg_growth_total'' = Some gcol"
    using labels_map_of [OF lab(1)] by blast
  let ?g0 = "\<lparr>index = index W, columns = [(''pctg_growth_total'', gcol)]\<rparr>"
  have e9: "select (s0 @ [W]) ?b [''pctg_growth_total''] = Inr (s0 @ [W, ?g0], Suc ?b)"
    using gcol by (simp add: select_def alloc_def)
  have e10: "set_columns (s0 @ [W, ?g0]) (Suc ?b) [''total''] = Inr (s0 @ [W, growth_frame W])"
    using gcol by (simp add: set_columns_def nth_append growth_frame_def list_update_append)
  let ?c0 = "\<lparr>index = index W, columns = map (\<lambda>n. (n, the (map_of (columns W) n))) (map contrib cats)\<rparr>"
  have e11: "select (s0 @ [W, growth_frame W]) ?b (map contrib cats) =
               Inr (s0 @ [W, growth_frame W, ?c0], Suc (Suc ?b))"
    using lab(2) by (simp add: select_def alloc_def nth_append lookup_all_in labels_def)
  have zipmap: "zip cats (map snd (map (\<lambda>n. (n, the (map_of (columns W) n))) (map contrib cats))) =
      map (\<lambda>c. (c, the (map_of (columns W) (contrib c)))) cats"
    by (induction cats) simp_all
  have e12: "set_columns (s0 @ [W, growth_frame W, ?c0]) (Suc (Suc ?b)) cats =
               Inr (s0 @ [W, growth_frame W, contrib_frame W cats])"
    using zipmap by (simp add: set_columns_def nth_append contrib_frame_def list_update_append)
  have e13: "iloc_from1 (s0 @ [W, growth_frame W, contrib_frame W cats]) (Suc ?b) =
               Inr (tail (growth_frame W))"
    by (simp add: iloc_from1_def nth_append tail_def)
  have e14: "iloc_from1 (s0 @ [W, growth_frame W, contrib_frame W cats]) (Suc (Suc ?b)) =
               Inr (tail (contrib_frame W cats))"
    by (simp add: iloc_from1_def nth_append tail_def)
  have run: "extract_dfs s0 a =
               Inr ((tail (growth_frame W), tail (contrib_frame W cats)),
                    s0 @ [W, growth_frame W, contrib_frame W cats])"
    unfolding extract_dfs_def
    by (simp add: e1 e2 e3 e4 e5 e6 F4(1) W(1) e9 e10 e11 e12 e13 e14 del: map_map)
  have vals: "map_of (columns W) ''pctg_growth_total'' = Some (growth_series T T) \<and>
                (\<forall>c\<in>set (columns df).
                   map_of (columns W) (pctg_growth (fst c)) = Some (growth_series (snd c) (snd c)) \<and>
                   map_of (columns W) (contrib (fst c)) =
                     Some (contrib_series (growth_series (snd c) (snd c)) (snd c) T))"
    if v: "valid_labels cats"
  proof (intro conjI ballI)
    have nt: "''total'' \<notin> set cats" "''pctg_growth_total'' \<notin> set cats"
      and fr: "\<forall>c\<in>set cats. pctg_growth c \<notin> set cats" "\<forall>c\<in>set cats. contrib c \<notin> set cats"
      and dist: "distinct cats"
      using v by (auto simp: valid_labels_def)
    have "''pctg_growth_total'' \<notin> pctg_growth ` set cats" using nt by auto
    then show "map_of (columns W) ''pctg_growth_total'' = Some (growth_series T T)"
      using W(5) [of "''pctg_growth_total''"] F4(5) [of "''pctg_growth_total''"]
      by (auto simp: AList.update_conv')
    fix c assume c: "c \<in> set (columns df)"
    then have cc: "fst c \<in> set cats" by (simp add: cats_def df_def)
    have mdf: "map_of (columns df) (fst c) = Some (snd c)"
      using c dist by (simp add: cats_def df_def)
    have m3: "map_of (columns ?F3) (fst c) = Some (snd c)"
      using mdf cc nt by (auto simp: AList.update_conv')
    have m4g: "map_of (columns F4) (pctg_growth (fst c)) = Some (growth_series (snd c) (snd c))"
      using F4(6) fr(1) cc m3 mdf by auto
    have "fst c \<notin> pctg_growth ` set cats" using fr(1) cc by auto
    then have m4c: "map_of (columns F4) (fst c) = Some (snd c)"
      using F4(5) m3 by simp
    have m4t: "map_of (columns F4) ''total'' = Some T"
      using F4(5) [of "''total''"] by (auto simp: AList.update_conv')
    show "map_of (columns W) (pctg_growth (fst c)) = Some (growth_series (snd c) (snd c))"
      using W(5) [of "pctg_growth (fst c)"] m4g by auto
    show "map_of (columns W) (contrib (fst c)) =
                     Some (contrib_series (growth_series (snd c) (snd c)) (snd c) T)"
      using W(6) fr(2) cc m4g m4c m4t by auto
  qed
  show ?thesis
    using run W(2,3) lab tot gen_g gen_c vals by (intro exI [of _ W]) blast
qed

lemma wf_table_rect: "wf_table df \<Longrightarrow> rect (length (index df)) df"
  by (simp add: wf_table_def rect_def list_all_iff)

lemma nth_shift: "Suc t < length xs \<Longrightarrow> shift xs ! Suc t = xs ! t"
  by (simp add: shift_def)

lemma nth_series:
  "i < length xs \<Longrightarrow> i < length ys \<Longrightarrow> series_sub xs ys ! i = fsub (xs ! i) (ys ! i)"
  "i < length xs \<Longrightarrow> i < length ys \<Longrightarrow> series_mul xs ys ! i = fmul (xs ! i) (ys ! i)"
  "i < length xs \<Longrightarrow> i < length ys \<Longrightarrow> series_div xs ys ! i = fdiv (xs ! i) (ys ! i)"
  by (simp_all add: series_sub_def series_mul_def series_div_def)

lemma nth_growth_series:
  "Suc t < length cur \<Longrightarrow> length orig = length cur \<Longrightarrow>
   growth_series cur orig ! Suc t = fdiv (fsub (cur ! Suc t) (orig ! t)) (cur ! t)"
  by (simp add: growth_series_def nth_series nth_shift)

lemma nth_contrib_series:
  "Suc t < length g \<Longrightarrow> length cur = length g \<Longrightarrow> length tot = length g \<Longrightarrow>
   contrib_series g cur tot ! Suc t = fdiv (fmul (g ! Suc t) (cur ! t)) (tot ! t)"
  by (simp add: contrib_series_def nth_series nth_shift)

lemma nth_row_sums: "t < length (index df) \<Longrightarrow> row_sums df ! t = nansum (row df t)"
  by (simp add: row_sums_def)

lemma tl_nth: "Suc t < length xs \<Longrightarrow> tl xs ! t = xs ! Suc t"
  by (simp add: nth_tl)

text \<open>The outputs under valid labels, column by column.\<close>

lemma extract_dfs_valid:
  fixes s0 :: "'p store"
  assumes a: "a < length s0" and wf: "wf_table (s0 ! a)"
    and v: "valid_labels (map fst (columns (s0 ! a)))"
  shows "\<exists>W G C. extract_dfs s0 a = Inr ((G, C), s0 @ [W, growth_frame W, contrib_frame W (map fst (columns (s0 ! a)))]) \<and>
     index G = tl (index (s0 ! a)) \<and> index C = tl (index (s0 ! a)) \<and>
     columns G = [(''total'', tl (growth_series (row_sums (s0 ! a)) (row_sums (s0 ! a))))] \<and>
     columns C = map (\<lambda>c. (fst c, tl (contrib_series (growth_series (snd c) (snd c)) (snd c)
                                         (row_sums (s0 ! a))))) (columns (s0 ! a)) \<and>
     (\<forall>c\<in>set (columns (s0 ! a)).
        map_of (columns W) (pctg_growth (fst c)) = Some (growth_series (snd c) (snd c)))"
proof -
  let ?df = "s0 ! a" and ?cats = "map fst (columns (s0 ! a))" and ?T = "row_sums (s0 ! a)"
  from extract_dfs_run [OF a wf_table_rect [OF wf]] v
  obtain W where W: "extract_dfs s0 a =
               Inr ((tail (growth_frame W), tail (contrib_frame W ?cats)),
                    s0 @ [W, growth_frame W, contrib_frame W ?cats])"
    "index W = index ?df"
    "map_of (columns W) ''pctg_growth_total'' = Some (growth_series ?T ?T)"
    "\<forall>c\<in>set (columns ?df).
        map_of (columns W) (pctg_growth (fst c)) = Some (growth_series (snd c) (snd c)) \<and>
        map_of (columns W) (contrib (fst c)) =
          Some (contrib_series (growth_series (snd c) (snd c)) (snd c) ?T)"
    by blast
  have g: "columns (tail (growth_frame W)) = [(''total'', tl (growth_series ?T ?T))]"
    using W(3) by (simp add: tail_def growth_frame_def)
  have c: "columns (tail (contrib_frame W ?cats)) =
      map (\<lambda>c. (fst c, tl (contrib_series (growth_series (snd c) (snd c)) (snd c) ?T))) (columns ?df)"
    using W(4) by (simp add: tail_def contrib_frame_def o_def)
  have i: "index (tail (growth_frame W)) = tl (index ?df)"
    "index (tail (contrib_frame W ?cats)) = tl (index ?df)"
    using W(2) by (simp_all add: tail_def growth_frame_def contrib_frame_def)
  show ?thesis
    using W(1) g c i W(4) by (intro exI [of _ W] exI [of _ "tail (growth_frame W)"]
        exI [of _ "tail (contrib_frame W ?cats)"]) simp
qed

lemma map2_same:
  "map2 f (map g xs) (map h xs) = map (\<lambda>x. f (g x) (h x)) xs"
  by (induction xs) simp_all

lemma rows_valid:
  fixes df :: "'p table"
  assumes wf: "wf_table df" and t: "Suc t < length (index df)"
    and G: "columns G = [(''total'', tl (growth_series (row_sums df) (row_sums df)))]"
    and C: "columns C = map (\<lambda>c. (fst c, tl (contrib_series (growth_series (snd c) (snd c)) (snd c)
                                         (row_sums df)))) (columns df)"
  shows "row G t = [growth_cell (nansum (row df t)) (nansum (row df (Suc t)))]"
    and "row C t = map2 (contrib_cell (nansum (row df t))) (row df t) (row df (Suc t))"
proof -
  let ?N = "length (index df)"
  have lT: "length (row_sums df) = ?N" by simp
  show "row G t = [growth_cell (nansum (row df t)) (nansum (row df (Suc t)))]"
    using t by (simp add: row_def G tl_nth nth_growth_series nth_row_sums growth_cell_def)
  have len: "length (snd c) = ?N" if "c \<in> set (columns df)" for c
    using wf that by (simp add: wf_table_def list_all_iff)
  have "row C t = map (\<lambda>c. contrib_cell (nansum (row df t)) (snd c ! t) (snd c ! Suc t)) (columns df)"
    using t len
    by (simp add: row_def C o_def tl_nth nth_contrib_series nth_growth_series nth_row_sums
        contrib_cell_def)
  also have "\<dots> = map2 (contrib_cell (nansum (row df t))) (row df t) (row df (Suc t))"
    by (simp add: row_def map2_same)
  finally show "row C t = map2 (contrib_cell (nansum (row df t))) (row df t) (row df (Suc t))" .
qed

lemma nansum_Fin: "nansum (map Fin xs) = Fin (sum_list xs)"
proof -
  have "filter (\<lambda>v. \<not> is_nan v) (map Fin xs) = map Fin xs"
    by (induction xs) simp_all
  then show ?thesis by (simp add: nansum_def foldl_fadd_Fin)
qed

lemma contrib_cell_Fin:
  "x \<noteq> 0 \<Longrightarrow> S \<noteq> 0 \<Longrightarrow> contrib_cell (Fin S) (Fin x) (Fin y) = Fin ((y - x) / S)"
  by (simp add: contrib_cell_def fsub_def)

lemma growth_cell_Fin:
  "x \<noteq> 0 \<Longrightarrow> growth_cell (Fin x) (Fin y) = Fin ((y - x) / x)"
  by (simp add: growth_cell_def fsub_def)

lemma contrib_row_Fin:
  "length xs = length ys \<Longrightarrow> 0 \<notin> set xs \<Longrightarrow> S \<noteq> 0 \<Longrightarrow>
   map2 (contrib_cell (Fin S)) (map Fin xs) (map Fin ys) = map Fin (map2 (\<lambda>x y. (y - x) / S) xs ys)"
  by (induction xs ys rule: list_induct2) (simp_all add: contrib_cell_Fin)

lemma sum_contrib_row:
  "length xs = length ys \<Longrightarrow>
   sum_list (map2 (\<lambda>x y. (y - x) / S) xs ys) = (sum_list ys - sum_list xs) / (S :: real)"
  by (induction xs ys rule: list_induct2) (simp_all add: add_divide_distrib [symmetric])

lemmas run_defs = extract_dfs_def returned_def copy_def deref_def alloc_def andthen_def
  column_labels_def sum_axis1_def setitem_def getitem_def select_def set_columns_def
  iloc_from1_def row_def nansum_def shift_def series_div_def series_sub_def series_mul_def
  pctg_growth_def contrib_def fsub_def signed_inf_def

section \<open>Properties of extract_dfs\<close>

text \<open>
  The sum property on the tables with valid labels, in exact arithmetic. Take a
  table whose labels are distinct and do not collide with the labels of the working
  columns (\<open>valid_labels\<close>), and a period \<open>t + 1\<close> such that the values of the
  periods \<open>t\<close> and \<open>t + 1\<close> are finite, the total of period \<open>t\<close> is not 0 and no
  value of period \<open>t\<close> is 0. Then \<open>extract_dfs\<close> returns, the growth of that period is
  \<open>(total (t + 1) - total t) / total t\<close>, and the contributions of the categories for
  that period add up to it. Row \<open>t\<close> of the outputs is the period \<open>t + 1\<close> of the
  input.
\<close>

theorem contributions_sum_to_growth:
  assumes "a < length s0" and "wf_table (s0 ! a)"
    and "valid_labels (map fst (columns (s0 ! a)))"
    and "Suc t < length (index (s0 ! a))"
    and "row (s0 ! a) t = map Fin xs" and "row (s0 ! a) (Suc t) = map Fin ys"
    and "sum_list xs \<noteq> 0" and "0 \<notin> set xs"
  shows "\<exists>G C s' cs. extract_dfs s0 a = Inr ((G, C), s') \<and>
           row G t = [Fin ((sum_list ys - sum_list xs) / sum_list xs)] \<and>
           row C t = map Fin cs \<and>
           sum_list cs = (sum_list ys - sum_list xs) / sum_list xs"
proof -
  from extract_dfs_valid [OF assms(1-3)] obtain W G C where
    run: "extract_dfs s0 a = Inr ((G, C), s0 @ [W, growth_frame W, contrib_frame W (map fst (columns (s0 ! a)))])"
    and G: "columns G = [(''total'', tl (growth_series (row_sums (s0 ! a)) (row_sums (s0 ! a))))]"
    and C: "columns C = map (\<lambda>c. (fst c, tl (contrib_series (growth_series (snd c) (snd c)) (snd c)
                                         (row_sums (s0 ! a))))) (columns (s0 ! a))"
    by blast
  have len: "length xs = length ys"
    using assms(5,6) by (metis length_map row_def)
  let ?cs = "map2 (\<lambda>x y. (y - x) / sum_list xs) xs ys"
  have "row G t = [Fin ((sum_list ys - sum_list xs) / sum_list xs)]"
    using rows_valid(1) [OF assms(2,4) G C] assms(5-7) by (simp add: nansum_Fin growth_cell_Fin)
  moreover have "row C t = map Fin ?cs"
    using rows_valid(2) [OF assms(2,4) G C] assms(5-8) len
    by (simp add: nansum_Fin contrib_row_Fin)
  moreover have "sum_list ?cs = (sum_list ys - sum_list xs) / sum_list xs"
    using len by (rule sum_contrib_row)
  ultimately show ?thesis using run by blast
qed

text \<open>
  The sum property at \<open>growth_example\<close> and its second period: growth 1/3.
\<close>

theorem contributions_sum_to_growth_witness:
  "(0::nat) < length [growth_example] \<and> wf_table ([growth_example] ! 0) \<and>
   valid_labels (map fst (columns ([growth_example] ! 0))) \<and>
   Suc 0 < length (index ([growth_example] ! 0)) \<and>
   row ([growth_example] ! 0) 0 = map Fin [10, 20] \<and>
   row ([growth_example] ! 0) (Suc 0) = map Fin [15, 25] \<and>
   sum_list [10, 20 :: real] \<noteq> 0 \<and> 0 \<notin> set [10, 20 :: real] \<and>
   (\<exists>G C s' cs. extract_dfs [growth_example] 0 = Inr ((G, C), s') \<and>
           row G 0 = [Fin (1 / 3)] \<and> row C 0 = map Fin cs \<and> sum_list cs = 1 / 3)"
  using contributions_sum_to_growth [of 0 "[growth_example]" 0 "[10, 20]" "[15, 25]"]
  by (simp add: growth_example_def wf_table_def valid_labels_def row_def pctg_growth_def contrib_def)

text \<open>
  Claim C1. The code does not have the property on a table with a category labelled
  \<open>total\<close>: the sums of the rows overwrite that column of the copy (source line 25), and
  the first pass over the categories overwrites the growth of the total with an expression
  that mixes the copy and the caller's table (source line 28). On \<open>collide_example\<close> the
  totals are 4 and 6, so that the growth is 1/2; the function returns the growth 5/4 and
  the contributions 5/4 and 1/4, whose sum is 3/2.
\<close>

theorem collision_breaks_sum:
  "wf_table collide_example \<and>
   row collide_example 0 = map Fin [1, 3] \<and> row collide_example 1 = map Fin [2, 4] \<and>
   returned (extract_dfs [collide_example] 0) =
     Inr (\<lparr>index = [2001], columns = [(''total'', [Fin (5 / 4)])]\<rparr>,
          \<lparr>index = [2001], columns = [(''total'', [Fin (5 / 4)]), (''a'', [Fin (1 / 4)])]\<rparr>) \<and>
   sum_list [5 / 4, 1 / 4 :: real] \<noteq> 5 / 4 \<and>
   (sum_list [2, 4] - sum_list [1, 3]) / sum_list [1, 3 :: real] \<noteq> 5 / 4"
  by (simp add: collide_example_def wf_table_def run_defs)

lemma rect_the_map_of:
  "rect N W \<Longrightarrow> name \<in> labels W \<Longrightarrow> length (the (map_of (columns W) name)) = N"
  using labels_map_of rect_map_of by fastforce

lemma extract_dfs_shape:
  fixes s0 :: "'p store"
  assumes a: "a < length s0" and wf: "wf_table (s0 ! a)"
  shows "\<exists>G C W. extract_dfs s0 a =
           Inr ((G, C), s0 @ [W, growth_frame W, contrib_frame W (map fst (columns (s0 ! a)))]) \<and>
         index G = tl (index (s0 ! a)) \<and> index C = tl (index (s0 ! a)) \<and>
         map fst (columns G) = [''total''] \<and> map fst (columns C) = map fst (columns (s0 ! a)) \<and>
         list_all (\<lambda>c. length (snd c) = length (index (s0 ! a)) - 1) (columns G) \<and>
         list_all (\<lambda>c. length (snd c) = length (index (s0 ! a)) - 1) (columns C)"
proof -
  let ?df = "s0 ! a" and ?cats = "map fst (columns (s0 ! a))" and ?N = "length (index (s0 ! a))"
  from extract_dfs_run [OF a wf_table_rect [OF wf]]
  obtain W where W: "extract_dfs s0 a =
               Inr ((tail (growth_frame W), tail (contrib_frame W ?cats)),
                    s0 @ [W, growth_frame W, contrib_frame W ?cats])"
    "index W = index ?df" "rect ?N W" "''pctg_growth_total'' \<in> labels W"
    "contrib ` set ?cats \<subseteq> labels W"
    by blast
  have lg: "length (the (map_of (columns W) ''pctg_growth_total'')) = ?N"
    using rect_the_map_of [OF W(3,4)] .
  have lc: "length (the (map_of (columns W) (contrib c))) = ?N" if "c \<in> set ?cats" for c
    using rect_the_map_of [OF W(3)] W(5) that by blast
  have 1: "index (tail (growth_frame W)) = tl (index ?df)"
    "index (tail (contrib_frame W ?cats)) = tl (index ?df)"
    using W(2) by (simp_all add: tail_def growth_frame_def contrib_frame_def)
  have 2: "map fst (columns (tail (growth_frame W))) = [''total'']"
    "map fst (columns (tail (contrib_frame W ?cats))) = ?cats"
    by (simp_all add: tail_def growth_frame_def contrib_frame_def o_def)
  have 3: "list_all (\<lambda>c. length (snd c) = ?N - 1) (columns (tail (growth_frame W)))"
    using lg by (simp add: tail_def growth_frame_def)
  have 4: "list_all (\<lambda>c. length (snd c) = ?N - 1) (columns (tail (contrib_frame W ?cats)))"
    using lc by (simp add: tail_def contrib_frame_def list_all_iff)
  show ?thesis
    using W(1) 1 2 3 4
    by (intro exI [of _ "tail (growth_frame W)"] exI [of _ "tail (contrib_frame W ?cats)"]
        exI [of _ W]) simp
qed

text \<open>
  Claim C5. For a table of \<open>N \<ge> 2\<close> periods, \<open>extract_dfs\<close> returns a growth
  series and a contribution table whose periods are the periods of the input without the
  first: each has \<open>N - 1\<close> periods, and each of their columns \<open>N - 1\<close> values.
\<close>

theorem first_period_excluded:
  assumes "a < length s0" and "wf_table (s0 ! a)" and "2 \<le> length (index (s0 ! a))"
  shows "\<exists>G C s'. extract_dfs s0 a = Inr ((G, C), s') \<and>
           index G = tl (index (s0 ! a)) \<and> index C = tl (index (s0 ! a)) \<and>
           length (index G) = length (index (s0 ! a)) - 1 \<and>
           length (index C) = length (index (s0 ! a)) - 1 \<and>
           list_all (\<lambda>c. length (snd c) = length (index (s0 ! a)) - 1) (columns G) \<and>
           list_all (\<lambda>c. length (snd c) = length (index (s0 ! a)) - 1) (columns C)"
proof -
  from extract_dfs_shape [OF assms(1,2)] obtain G C s' where
    "extract_dfs s0 a = Inr ((G, C), s')"
    "index G = tl (index (s0 ! a))" "index C = tl (index (s0 ! a))"
    "list_all (\<lambda>c. length (snd c) = length (index (s0 ! a)) - 1) (columns G)"
    "list_all (\<lambda>c. length (snd c) = length (index (s0 ! a)) - 1) (columns C)"
    by blast
  then show ?thesis by (intro exI [of _ G] exI [of _ C] exI [of _ s']) simp
qed

text \<open>
  Claim C5 at \<open>growth_example\<close>: the periods 2001 and 2002 of 2000, 2001 and 2002.
\<close>

theorem first_period_excluded_witness:
  "(0::nat) < length [growth_example] \<and> wf_table ([growth_example] ! 0) \<and>
   2 \<le> length (index ([growth_example] ! 0)) \<and>
   (\<exists>G C s'. extract_dfs [growth_example] 0 = Inr ((G, C), s') \<and>
           index G = [2001, 2002] \<and> index C = [2001, 2002] \<and>
           length (index G) = 2 \<and> length (index C) = 2 \<and>
           list_all (\<lambda>c. length (snd c) = 2) (columns G) \<and>
           list_all (\<lambda>c. length (snd c) = 2) (columns C))"
  using first_period_excluded [of 0 "[growth_example]"]
  by (simp add: growth_example_def wf_table_def numeral_2_eq_2)

text \<open>
  Claim C9. \<open>extract_dfs\<close> returns and leaves every frame that the store held
  before the call as it was, the caller's table among them: the assignments go to the
  copy, which is a new frame.
\<close>

theorem input_not_mutated:
  assumes "a < length s0" and "wf_table (s0 ! a)"
  shows "\<exists>r s'. extract_dfs s0 a = Inr (r, s') \<and> take (length s0) s' = s0 \<and> s' ! a = s0 ! a"
proof -
  from extract_dfs_shape [OF assms] obtain G C W where
    "extract_dfs s0 a =
       Inr ((G, C), s0 @ [W, growth_frame W, contrib_frame W (map fst (columns (s0 ! a)))])"
    by blast
  then show ?thesis using assms(1) by (simp add: nth_append)
qed

text \<open>
  Claim C9 at the store that holds \<open>growth_example\<close> only.
\<close>

theorem input_not_mutated_witness:
  "(0::nat) < length [growth_example] \<and> wf_table ([growth_example] ! 0) \<and>
   (\<exists>r s'. extract_dfs [growth_example] 0 = Inr (r, s') \<and>
       take (length [growth_example]) s' = [growth_example] \<and> s' ! 0 = growth_example)"
  using input_not_mutated [of 0 "[growth_example]"]
  by (simp add: growth_example_def wf_table_def)

text \<open>
  Claim C2, amended. For a table with valid labels, a category \<open>c\<close> whose values
  at the periods \<open>t\<close> and \<open>t + 1\<close> are the finite \<open>x\<close> and \<open>y\<close>, with \<open>x\<close> not 0, the
  growth rate of the category that \<open>extract_dfs\<close> computes for the period \<open>t + 1\<close> (the
  column \<open>pctg_growth_c\<close> of the working copy) is \<open>(y - x) / x\<close>: the denominator is the
  value of the period before.
\<close>

theorem prior_period_denominator:
  assumes "a < length s0" and "wf_table (s0 ! a)"
    and "valid_labels (map fst (columns (s0 ! a)))"
    and "Suc t < length (index (s0 ! a))"
    and "c \<in> set (columns (s0 ! a))"
    and "snd c ! t = Fin x" and "snd c ! Suc t = Fin y" and "x \<noteq> 0"
  shows "\<exists>g. working_column s0 a (pctg_growth (fst c)) = Inr g \<and>
             g ! Suc t = Fin ((y - x) / x)"
proof -
  from extract_dfs_valid [OF assms(1-3)] obtain W G C where
    run: "extract_dfs s0 a = Inr ((G, C), s0 @ [W, growth_frame W, contrib_frame W (map fst (columns (s0 ! a)))])"
    and pg: "\<forall>c\<in>set (columns (s0 ! a)).
        map_of (columns W) (pctg_growth (fst c)) = Some (growth_series (snd c) (snd c))"
    by blast
  have len: "length (snd c) = length (index (s0 ! a))"
    using assms(2,5) by (simp add: wf_table_def list_all_iff)
  have "working_column s0 a (pctg_growth (fst c)) = Inr (growth_series (snd c) (snd c))"
    using run pg assms(5) by (simp add: working_column_def getitem_Some)
  moreover have "growth_series (snd c) (snd c) ! Suc t = Fin ((y - x) / x)"
    using assms(4,6-8) len by (simp add: nth_growth_series fsub_def)
  ultimately show ?thesis by blast
qed

text \<open>
  Claim C2 (amended) at category A of \<open>growth_example\<close>: (15 - 10) / 10.
\<close>

theorem prior_period_denominator_witness:
  "(0::nat) < length [growth_example] \<and> wf_table ([growth_example] ! 0) \<and>
   valid_labels (map fst (columns ([growth_example] ! 0))) \<and>
   Suc 0 < length (index ([growth_example] ! 0)) \<and>
   (''A'', [Fin 10, Fin 15, Fin 12]) \<in> set (columns ([growth_example] ! 0)) \<and>
   [Fin 10, Fin 15, Fin 12] ! 0 = Fin 10 \<and> [Fin 10, Fin 15, Fin 12] ! Suc 0 = Fin 15 \<and>
   (10::real) \<noteq> 0 \<and>
   (\<exists>g. working_column [growth_example] 0 ''pctg_growth_A'' = Inr g \<and> g ! Suc 0 = Fin (1 / 2))"
  using prior_period_denominator [of 0 "[growth_example]" 0 "(''A'', [Fin 10, Fin 15, Fin 12])" 10 15]
  by (simp add: growth_example_def wf_table_def valid_labels_def pctg_growth_def contrib_def)

text \<open>
  Claim C2 as stated fails: on \<open>growth_example\<close> the growth rate of category A
  for the second period is 1/2, which is (15 - 10) / 10 and not (15 - 10) / 15.
\<close>

theorem current_period_denominator_refuted:
  "working_column [growth_example] 0 (pctg_growth ''A'') = Inr [NaN, Fin (1 / 2), Fin (- (1 / 5))] \<and>
   cell growth_example 0 0 = Fin 10 \<and> cell growth_example 1 0 = Fin 15 \<and>
   Fin (1 / 2) \<noteq> Fin ((15 - 10) / 15) \<and> Fin (1 / 2) = Fin ((15 - 10) / 10)"
  by (simp add: growth_example_def working_column_def cell_def run_defs)

lemma empty_columns:
  "map fst xs = ks \<Longrightarrow> list_all (\<lambda>c. length (snd c) = 0) xs \<Longrightarrow> xs = map (\<lambda>k. (k, [])) ks"
  by (induction xs arbitrary: ks) (auto simp: prod_eq_iff)

lemma growth_series_zero_totals:
  "growth_series (replicate N (Fin 0)) (replicate N (Fin 0)) = replicate N NaN"
proof (rule nth_equalityI)
  show "length (growth_series (replicate N (Fin 0)) (replicate N (Fin 0))) = length (replicate N NaN)"
    by simp
next
  fix i assume "i < length (growth_series (replicate N (Fin 0)) (replicate N (Fin 0)))"
  then have i: "i < N" by simp
  show "growth_series (replicate N (Fin 0)) (replicate N (Fin 0)) ! i = replicate N NaN ! i"
  proof (cases i)
    case 0
    with i show ?thesis
      by (simp add: growth_series_def nth_series shift_def fsub_def)
  next
    case (Suc t)
    with i show ?thesis by (simp add: nth_growth_series fsub_def)
  qed
qed

lemma row_sums_no_columns: "columns df = [] \<Longrightarrow> row_sums df = replicate (length (index df)) (Fin 0)"
  by (simp add: row_sums_def row_def nansum_def map_replicate_const)

text \<open>
  Claim C6, amended. \<open>extract_dfs\<close> does not check the shape of its input and
  returns on every table. With fewer than 2 periods both outputs have no period, and
  every column of them is empty. With no category the contribution table has no column,
  and the growth series holds NaN, which is 0 / 0, for each period but the first.
\<close>

theorem no_shape_validation:
  assumes "a < length s0" and "wf_table (s0 ! a)"
  shows "\<exists>G C s'. extract_dfs s0 a = Inr ((G, C), s') \<and>
           (length (index (s0 ! a)) < 2 \<longrightarrow>
              index G = [] \<and> index C = [] \<and> columns G = [(''total'', [])] \<and>
              columns C = map (\<lambda>c. (fst c, [])) (columns (s0 ! a))) \<and>
           (columns (s0 ! a) = [] \<longrightarrow>
              index G = tl (index (s0 ! a)) \<and> index C = tl (index (s0 ! a)) \<and>
              columns G = [(''total'', replicate (length (index (s0 ! a)) - 1) NaN)] \<and>
              columns C = [])"
proof -
  let ?df = "s0 ! a" and ?N = "length (index (s0 ! a))"
  from extract_dfs_shape [OF assms] obtain G C s' where
    run: "extract_dfs s0 a = Inr ((G, C), s')"
    and idx: "index G = tl (index ?df)" "index C = tl (index ?df)"
    and lab: "map fst (columns G) = [''total'']" "map fst (columns C) = map fst (columns ?df)"
    and len: "list_all (\<lambda>c. length (snd c) = ?N - 1) (columns G)"
      "list_all (\<lambda>c. length (snd c) = ?N - 1) (columns C)"
    by auto
  have short: "index G = [] \<and> index C = [] \<and> columns G = [(''total'', [])] \<and>
              columns C = map (\<lambda>c. (fst c, [])) (columns ?df)" if "?N < 2"
  proof -
    have z: "?N - 1 = 0" using that by simp
    have "tl (index ?df) = []" using that by (cases "index ?df") simp_all
    moreover have "columns G = [(''total'', [])]"
      using empty_columns [OF lab(1)] len(1) z by simp
    moreover have "columns C = map (\<lambda>c. (fst c, [])) (columns ?df)"
      using empty_columns [OF lab(2)] len(2) z by (simp add: o_def)
    ultimately show ?thesis using idx by simp
  qed
  have nocat: "index G = tl (index ?df) \<and> index C = tl (index ?df) \<and>
              columns G = [(''total'', replicate (?N - 1) NaN)] \<and> columns C = []"
    if e: "columns ?df = []"
  proof -
    have "valid_labels (map fst (columns ?df))" using e by (simp add: valid_labels_def)
    from extract_dfs_valid [OF assms this] run
    have "columns G = [(''total'', tl (growth_series (row_sums ?df) (row_sums ?df)))]"
      and "columns C = []"
      using e by auto
    then show ?thesis
      using idx e by (simp add: row_sums_no_columns growth_series_zero_totals tl_replicate)
  qed
  show ?thesis using run short nocat by blast
qed

text \<open>
  Claim C6 (amended) at the one-period table \<open>single_period_example\<close>.
\<close>

theorem no_shape_validation_witness:
  "(0::nat) < length [single_period_example] \<and> wf_table ([single_period_example] ! 0) \<and>
   (\<exists>G C s'. extract_dfs [single_period_example] 0 = Inr ((G, C), s') \<and>
           index G = [] \<and> index C = [] \<and> columns G = [(''total'', [])] \<and>
           columns C = [(''a'', [])])"
  using no_shape_validation [of 0 "[single_period_example]"]
  by (simp add: single_period_example_def wf_table_def)

text \<open>
  Claim C6 as stated fails: \<open>extract_dfs\<close> returns a value, not an error, on
  a table of one period and on a table of no category.
\<close>

theorem single_period_not_rejected:
  "length (index single_period_example) < 2 \<and>
   returned (extract_dfs [single_period_example] 0) =
     Inr (\<lparr>index = [], columns = [(''total'', [])]\<rparr>, \<lparr>index = [], columns = [(''a'', [])]\<rparr>) \<and>
   columns no_category_example = [] \<and>
   returned (extract_dfs [no_category_example] 0) =
     Inr (\<lparr>index = [2001, 2002], columns = [(''total'', [NaN, NaN])]\<rparr>,
          \<lparr>index = [2001, 2002], columns = []\<rparr>)"
  by (simp add: single_period_example_def no_category_example_def run_defs)

lemma nonfinite_div_zero: "\<not> is_finite (fdiv x (Fin 0))"
  by (cases x) (simp_all add: signed_inf_def)

lemma nonfinite_mul: "\<not> is_finite x \<Longrightarrow> \<not> is_finite (fmul x y)"
  by (cases x; cases y) (simp_all add: signed_inf_def)

lemma nonfinite_div: "\<not> is_finite x \<Longrightarrow> \<not> is_finite (fdiv x y)"
  by (cases x; cases y) (simp_all add: signed_inf_def)

lemma nonfinite_cells:
  "\<not> is_finite (growth_cell (Fin 0) y)"
  "\<not> is_finite (contrib_cell (Fin 0) x y)"
  "\<not> is_finite (contrib_cell tot (Fin 0) y)"
  by (simp_all add: growth_cell_def contrib_cell_def nonfinite_div_zero nonfinite_mul nonfinite_div)

lemma zero_total_rows:
  fixes s0 :: "'p store"
  assumes a: "a < length s0" and wf: "wf_table (s0 ! a)" and t: "Suc t < length (index (s0 ! a))"
    and z: "nansum (row (s0 ! a) t) = Fin 0"
  shows "\<exists>G C s'. extract_dfs s0 a = Inr ((G, C), s') \<and>
           list_all (\<lambda>v. \<not> is_finite v) (row G t) \<and>
           list_all (\<lambda>v. \<not> is_finite v) (row C t)"
proof -
  let ?df = "s0 ! a" and ?cats = "map fst (columns (s0 ! a))" and ?N = "length (index (s0 ! a))"
  let ?T = "row_sums (s0 ! a)"
  from extract_dfs_run [OF a wf_table_rect [OF wf]]
  obtain W where run: "extract_dfs s0 a =
               Inr ((tail (growth_frame W), tail (contrib_frame W ?cats)),
                    s0 @ [W, growth_frame W, contrib_frame W ?cats])"
    and g: "\<exists>orig. length orig = ?N \<and>
                map_of (columns W) ''pctg_growth_total'' = Some (growth_series ?T orig)"
    and c: "\<forall>c\<in>set ?cats. \<exists>g cur. length g = ?N \<and> length cur = ?N \<and>
                map_of (columns W) (contrib c) = Some (contrib_series g cur ?T)"
    by blast
  have Tt: "?T ! t = Fin 0" using t z by (simp add: nth_row_sums)
  from g obtain orig where orig: "length orig = ?N"
    "map_of (columns W) ''pctg_growth_total'' = Some (growth_series ?T orig)" by blast
  have "row (tail (growth_frame W)) t = [growth_series ?T orig ! Suc t]"
    using orig t by (simp add: row_def tail_def growth_frame_def tl_nth)
  then have G: "list_all (\<lambda>v. \<not> is_finite v) (row (tail (growth_frame W)) t)"
    using orig t Tt by (simp add: nth_growth_series nonfinite_div_zero)
  have "\<not> is_finite (tl (the (map_of (columns W) (contrib c))) ! t)" if "c \<in> set ?cats" for c
  proof -
    from c that obtain g cur where "length g = ?N" "length cur = ?N"
      "map_of (columns W) (contrib c) = Some (contrib_series g cur ?T)" by blast
    then show ?thesis using t Tt by (simp add: tl_nth nth_contrib_series nonfinite_div_zero)
  qed
  then have C: "list_all (\<lambda>v. \<not> is_finite v) (row (tail (contrib_frame W ?cats)) t)"
    by (simp add: row_def tail_def contrib_frame_def list_all_iff)
  show ?thesis using run G C by blast
qed

lemma working_total:
  fixes s0 :: "'p store"
  assumes "a < length s0" and "wf_table (s0 ! a)"
  shows "working_column s0 a ''total'' = Inr (row_sums (s0 ! a))"
proof -
  from extract_dfs_run [OF assms(1) wf_table_rect [OF assms(2)]]
  obtain W where "extract_dfs s0 a =
               Inr ((tail (growth_frame W), tail (contrib_frame W (map fst (columns (s0 ! a))))),
                    s0 @ [W, growth_frame W, contrib_frame W (map fst (columns (s0 ! a)))])"
    "map_of (columns W) ''total'' = Some (row_sums (s0 ! a))"
    by blast
  then show ?thesis by (simp add: working_column_def getitem_Some)
qed

lemma zero_value_cell: "contrib_cell tot (Fin 0) y = NaN"
  by (cases y; cases tot) (simp_all add: contrib_cell_def fsub_def signed_inf_def)

lemma zero_total_cell:
  "x \<noteq> 0 \<Longrightarrow> contrib_cell (Fin 0) (Fin x) (Fin y) =
     (if y = x then NaN else if x < y then PInf else NInf)"
  by (simp add: contrib_cell_def fsub_def signed_inf_def)

lemma foldl_fadd_zeros: "\<forall>v\<in>set xs. v = Fin 0 \<Longrightarrow> foldl fadd (Fin 0) xs = Fin 0"
  by (induction xs) simp_all

lemma nansum_zeros: "list_all (\<lambda>v. v = Fin 0) xs \<Longrightarrow> nansum xs = Fin 0"
proof -
  assume a: "list_all (\<lambda>v. v = Fin 0) xs"
  then have "filter (\<lambda>v. \<not> is_nan v) xs = xs"
    by (induction xs) simp_all
  with a show ?thesis by (simp add: nansum_def foldl_fadd_zeros list_all_iff)
qed

lemma nansum_finite: "list_all is_finite xs \<Longrightarrow> \<not> is_nan (nansum xs)"
proof -
  assume "list_all is_finite xs"
  then have "\<exists>vs. xs = map Fin vs"
  proof (induction xs)
    case Nil
    then show ?case by simp
  next
    case (Cons x xs)
    then obtain vs where "xs = map Fin vs" by auto
    moreover from Cons.prems obtain v where "x = Fin v" by (cases x) simp_all
    ultimately have "x # xs = map Fin (v # vs)" by simp
    then show ?case by (rule exI)
  qed
  then show ?thesis by (auto simp: nansum_Fin)
qed

text \<open>
  Claim C7. \<open>extract_dfs\<close> returns on every table, whatever its values, and its
  outputs are the results of the floating-point operations on a zero divisor. \<open>T\<close> is
  the series of totals that the function holds in its working copy; it is 0 for a period
  whose values are all 0 and is not NaN for a period of finite values.
  Whatever the labels, a total of 0 at period \<open>t\<close> makes the growth and every
  contribution of period \<open>t + 1\<close> NaN or infinite.
  For a table with valid labels, the growth of period \<open>t + 1\<close> is
  \<open>(T (t + 1) - T t) / T t\<close> and the contribution of a category with the values \<open>x\<close>
  at \<open>t\<close> and \<open>y\<close> at \<open>t + 1\<close> is \<open>((y - x) / x) * x / T t\<close>, in the operations of
  the cells. So a category whose value at \<open>t\<close> is 0 has the contribution NaN; a total
  of 0 at \<open>t\<close> gives the growth NaN when the next total is 0, +Inf when it is positive and
  -Inf when it is negative, and gives a category of finite values with \<open>x\<close> not 0 the
  contribution NaN when \<open>y = x\<close>, +Inf when \<open>y > x\<close> and -Inf when \<open>y < x\<close>.
\<close>

theorem zero_divisor_propagates:
  "(a < length s0 \<and> wf_table (s0 ! a) \<longrightarrow> (\<exists>r. extract_dfs s0 a = Inr r)) \<and>
   (a < length s0 \<and> wf_table (s0 ! a) \<and> Suc t < length (index (s0 ! a)) \<longrightarrow>
      (\<exists>G C s' T. extract_dfs s0 a = Inr ((G, C), s') \<and>
         working_column s0 a ''total'' = Inr T \<and>
         (T ! t = Fin 0 \<longrightarrow>
            list_all (\<lambda>v. \<not> is_finite v) (row G t) \<and>
            list_all (\<lambda>v. \<not> is_finite v) (row C t)))) \<and>
   (a < length s0 \<and> wf_table (s0 ! a) \<and> valid_labels (map fst (columns (s0 ! a))) \<and>
    Suc t < length (index (s0 ! a)) \<and> j < length (columns (s0 ! a)) \<longrightarrow>
      (\<exists>G C s' T. extract_dfs s0 a = Inr ((G, C), s') \<and>
         working_column s0 a ''total'' = Inr T \<and>
         (list_all (\<lambda>v. v = Fin 0) (row (s0 ! a) t) \<longrightarrow> T ! t = Fin 0) \<and>
         (list_all is_finite (row (s0 ! a) t) \<longrightarrow> \<not> is_nan (T ! t)) \<and>
         row G t = [fdiv (fsub (T ! Suc t) (T ! t)) (T ! t)] \<and>
         cell C t j =
           fdiv (fmul (fdiv (fsub (cell (s0 ! a) (Suc t) j) (cell (s0 ! a) t j)) (cell (s0 ! a) t j))
                      (cell (s0 ! a) t j))
                (T ! t) \<and>
         (cell (s0 ! a) t j = Fin 0 \<longrightarrow> cell C t j = NaN) \<and>
         (T ! t = Fin 0 \<and> T ! Suc t = Fin S \<longrightarrow>
            row G t = [if S = 0 then NaN else if 0 < S then PInf else NInf]) \<and>
         (T ! t = Fin 0 \<and> cell (s0 ! a) t j = Fin x \<and> x \<noteq> 0 \<and> cell (s0 ! a) (Suc t) j = Fin y \<longrightarrow>
            cell C t j = (if y = x then NaN else if x < y then PInf else NInf))))"
proof (intro conjI impI)
  assume "a < length s0 \<and> wf_table (s0 ! a)"
  then show "\<exists>r. extract_dfs s0 a = Inr r"
    using extract_dfs_shape [of a s0] by blast
next
  assume h: "a < length s0 \<and> wf_table (s0 ! a) \<and> Suc t < length (index (s0 ! a))"
  let ?T = "row_sums (s0 ! a)"
  have wt: "working_column s0 a ''total'' = Inr ?T" using h working_total by blast
  have shape: "\<exists>r. extract_dfs s0 a = Inr r" using h extract_dfs_shape [of a s0] by blast
  show "\<exists>G C s' T. extract_dfs s0 a = Inr ((G, C), s') \<and>
         working_column s0 a ''total'' = Inr T \<and>
         (T ! t = Fin 0 \<longrightarrow>
            list_all (\<lambda>v. \<not> is_finite v) (row G t) \<and>
            list_all (\<lambda>v. \<not> is_finite v) (row C t))"
  proof (cases "?T ! t = Fin 0")
    case True
    then have "nansum (row (s0 ! a) t) = Fin 0" using h by (simp add: nth_row_sums)
    with h zero_total_rows [of a s0 t] wt show ?thesis by blast
  next
    case False
    from shape obtain G C s' where "extract_dfs s0 a = Inr ((G, C), s')"
      by (metis surj_pair)
    with False wt show ?thesis by blast
  qed
next
  assume h: "a < length s0 \<and> wf_table (s0 ! a) \<and> valid_labels (map fst (columns (s0 ! a))) \<and>
    Suc t < length (index (s0 ! a)) \<and> j < length (columns (s0 ! a))"
  let ?df = "s0 ! a"
  let ?T = "row_sums (s0 ! a)"
  from h extract_dfs_valid [of a s0] obtain W G C where
    run: "extract_dfs s0 a = Inr ((G, C), s0 @ [W, growth_frame W, contrib_frame W (map fst (columns ?df))])"
    and G: "columns G = [(''total'', tl (growth_series ?T ?T))]"
    and C: "columns C = map (\<lambda>c. (fst c, tl (contrib_series (growth_series (snd c) (snd c)) (snd c)
                                         ?T))) (columns ?df)"
    by blast
  have wf: "wf_table ?df" and t: "Suc t < length (index ?df)" and j: "j < length (columns ?df)"
    using h by simp_all
  have wt: "working_column s0 a ''total'' = Inr ?T" using h working_total by blast
  have Tt: "?T ! t = nansum (row ?df t)" "?T ! Suc t = nansum (row ?df (Suc t))"
    using t by (simp_all add: nth_row_sums)
  have rG: "row G t = [fdiv (fsub (?T ! Suc t) (?T ! t)) (?T ! t)]"
    using rows_valid(1) [OF wf t G C] by (simp add: Tt growth_cell_def)
  have lr: "length (row ?df t) = length (columns ?df)" "length (row ?df (Suc t)) = length (columns ?df)"
    by (simp_all add: row_def)
  have jc: "j < length (columns C)" using j C by simp
  have cC: "cell C t j = contrib_cell (?T ! t) (cell ?df t j) (cell ?df (Suc t) j)"
    using j jc lr rows_valid(2) [OF wf t G C] by (simp add: cell_row Tt)
  have 1: "cell C t j =
           fdiv (fmul (fdiv (fsub (cell ?df (Suc t) j) (cell ?df t j)) (cell ?df t j))
                      (cell ?df t j))
                (?T ! t)"
    using cC by (simp add: contrib_cell_def)
  have 2: "cell C t j = NaN" if "cell ?df t j = Fin 0"
    using cC that by (simp add: zero_value_cell)
  have 3: "row G t = [if S = 0 then NaN else if 0 < S then PInf else NInf]"
    if "?T ! t = Fin 0 \<and> ?T ! Suc t = Fin S"
    using rG that by (simp add: fsub_def signed_inf_def)
  have 5: "?T ! t = Fin 0" if "list_all (\<lambda>v. v = Fin 0) (row ?df t)"
    using that by (simp add: Tt nansum_zeros)
  have 6: "\<not> is_nan (?T ! t)" if "list_all is_finite (row ?df t)"
    using that by (simp add: Tt nansum_finite)
  have 4: "cell C t j = (if y = x then NaN else if x < y then PInf else NInf)"
    if "?T ! t = Fin 0 \<and> cell ?df t j = Fin x \<and> x \<noteq> 0 \<and> cell ?df (Suc t) j = Fin y"
    using cC that zero_total_cell [of x y] by simp
  show "\<exists>G C s' T. extract_dfs s0 a = Inr ((G, C), s') \<and>
         working_column s0 a ''total'' = Inr T \<and>
         (list_all (\<lambda>v. v = Fin 0) (row (s0 ! a) t) \<longrightarrow> T ! t = Fin 0) \<and>
         (list_all is_finite (row (s0 ! a) t) \<longrightarrow> \<not> is_nan (T ! t)) \<and>
         row G t = [fdiv (fsub (T ! Suc t) (T ! t)) (T ! t)] \<and>
         cell C t j =
           fdiv (fmul (fdiv (fsub (cell ?df (Suc t) j) (cell ?df t j)) (cell ?df t j))
                      (cell ?df t j))
                (T ! t) \<and>
         (cell ?df t j = Fin 0 \<longrightarrow> cell C t j = NaN) \<and>
         (T ! t = Fin 0 \<and> T ! Suc t = Fin S \<longrightarrow>
            row G t = [if S = 0 then NaN else if 0 < S then PInf else NInf]) \<and>
         (T ! t = Fin 0 \<and> cell ?df t j = Fin x \<and> x \<noteq> 0 \<and> cell ?df (Suc t) j = Fin y \<longrightarrow>
            cell C t j = (if y = x then NaN else if x < y then PInf else NInf))"
    using run wt rG 1 2 3 4 5 6
    by (intro exI [of _ G] exI [of _ C] exI [of _ ?T]
        exI [of _ "s0 @ [W, growth_frame W, contrib_frame W (map fst (columns ?df))]"]) simp
qed

text \<open>
  Claim C7 at \<open>zero_divisor_example\<close>, whose first period is 0 in both categories,
  and at \<open>sign_example\<close>, whose first period is 5 and -5.
\<close>

theorem zero_divisor_propagates_witness:
  "(0::nat) < length [zero_divisor_example] \<and> wf_table ([zero_divisor_example] ! 0) \<and>
   valid_labels (map fst (columns ([zero_divisor_example] ! 0))) \<and>
   Suc 0 < length (index ([zero_divisor_example] ! 0)) \<and>
   0 < length (columns ([zero_divisor_example] ! 0)) \<and>
   cell ([zero_divisor_example] ! 0) 0 0 = Fin 0 \<and>
   (\<exists>r. extract_dfs [zero_divisor_example] 0 = Inr r) \<and>
   (\<exists>G C s' T. extract_dfs [zero_divisor_example] 0 = Inr ((G, C), s') \<and>
       working_column [zero_divisor_example] 0 ''total'' = Inr T \<and> T = [Fin 0, Fin 0, Fin 42] \<and>
       row G 0 = [NaN] \<and> cell C 0 0 = NaN) \<and>
   (0::nat) < length [sign_example] \<and> wf_table ([sign_example] ! 0) \<and>
   valid_labels (map fst (columns ([sign_example] ! 0))) \<and>
   Suc 0 < length (index ([sign_example] ! 0)) \<and>
   0 < length (columns ([sign_example] ! 0)) \<and>
   cell ([sign_example] ! 0) 0 0 = Fin 5 \<and> (5::real) \<noteq> 0 \<and>
   cell ([sign_example] ! 0) (Suc 0) 0 = Fin 1 \<and>
   (\<exists>G C s' T. extract_dfs [sign_example] 0 = Inr ((G, C), s') \<and>
       working_column [sign_example] 0 ''total'' = Inr T \<and> T = [Fin 0, Fin 11] \<and>
       list_all (\<lambda>v. \<not> is_finite v) (row G 0) \<and> list_all (\<lambda>v. \<not> is_finite v) (row C 0) \<and>
       row G 0 = [PInf] \<and> cell C 0 0 = NInf)"
proof -
  have z: "(0::nat) < length [zero_divisor_example]" "wf_table ([zero_divisor_example] ! 0)"
    "valid_labels (map fst (columns ([zero_divisor_example] ! 0)))"
    "Suc 0 < length (index ([zero_divisor_example] ! 0))"
    "0 < length (columns ([zero_divisor_example] ! 0))"
    "cell ([zero_divisor_example] ! 0) 0 0 = Fin 0"
    by (simp_all add: zero_divisor_example_def wf_table_def valid_labels_def pctg_growth_def
        contrib_def cell_def)
  have zt: "working_column [zero_divisor_example] 0 ''total'' = Inr [Fin 0, Fin 0, Fin 42]"
    using working_total [OF z(1,2)]
    by (simp add: row_sums_def zero_divisor_example_def row_def nansum_def upt_rec)
  have s: "(0::nat) < length [sign_example]" "wf_table ([sign_example] ! 0)"
    "valid_labels (map fst (columns ([sign_example] ! 0)))"
    "Suc 0 < length (index ([sign_example] ! 0))"
    "0 < length (columns ([sign_example] ! 0))"
    "cell ([sign_example] ! 0) 0 0 = Fin 5" "cell ([sign_example] ! 0) (Suc 0) 0 = Fin 1"
    by (simp_all add: sign_example_def wf_table_def valid_labels_def pctg_growth_def
        contrib_def cell_def)
  have st: "working_column [sign_example] 0 ''total'' = Inr [Fin 0, Fin 11]"
    using working_total [OF s(1,2)]
    by (simp add: row_sums_def sign_example_def row_def nansum_def upt_rec)
  note zi = zero_divisor_propagates [of 0 "[zero_divisor_example]" 0 0 0 0 0]
  note si = zero_divisor_propagates [of 0 "[sign_example]" 0 0 11 5 1]
  have 1: "\<exists>r. extract_dfs [zero_divisor_example] 0 = Inr r"
    using zi z by blast
  have 2: "\<exists>G C s' T. extract_dfs [zero_divisor_example] 0 = Inr ((G, C), s') \<and>
       working_column [zero_divisor_example] 0 ''total'' = Inr T \<and> T = [Fin 0, Fin 0, Fin 42] \<and>
       row G 0 = [NaN] \<and> cell C 0 0 = NaN"
    using zi z zt by auto
  have 3: "\<exists>G C s' T. extract_dfs [sign_example] 0 = Inr ((G, C), s') \<and>
       working_column [sign_example] 0 ''total'' = Inr T \<and> T = [Fin 0, Fin 11] \<and>
       list_all (\<lambda>v. \<not> is_finite v) (row G 0) \<and> list_all (\<lambda>v. \<not> is_finite v) (row C 0) \<and>
       row G 0 = [PInf] \<and> cell C 0 0 = NInf"
    using si s st by auto
  show ?thesis using z s 1 2 3 by simp
qed

end
